theory Spec2Isabelle
  imports Complex_Main "HOL-Library.Word" "HOL-Library.Multiset" "HOL-Library.Product_Lexorder"
begin

section \<open>JavaScript values\<close>

text \<open>
  A JavaScript string is a sequence of UTF-16 code units; \<open>length\<close> counts code units,
  as the source's \<open>text.length\<close> does. ASCII literals of the source are written
  \<open>js ''...''\<close>; the seeded texts, which are not ASCII, are given by their code units.
\<close>

type_synonym jsstring = "16 word list"

definition js :: "string \<Rightarrow> jsstring" where
  "js s = map of_char s"

text \<open>
  The values a parsed JSON body or a parsed query string can hold. A variable that the
  source destructures from the body or the query is \<open>undefined\<close> when the key is
  absent: such a variable is a \<open>json option\<close>, with \<open>None\<close> for \<open>undefined\<close>.
  A number is given by its value; the handlers only ever test it for truthiness.
\<close>

datatype json =
    JNull
  | JBool bool
  | JNum rat
  | JStr jsstring
  | JArr "json list"
  | JObj "(jsstring \<times> json) list"

text \<open>ToBoolean, as used by \<open>!text\<close>, \<open>priority && ...\<close>, \<open>if (search)\<close> and \<open>t.completed\<close>.\<close>

fun truthy :: "json \<Rightarrow> bool" where
  "truthy JNull = False"
| "truthy (JBool b) = b"
| "truthy (JNum n) = (n \<noteq> 0)"
| "truthy (JStr s) = (s \<noteq> [])"
| "truthy (JArr _) = True"
| "truthy (JObj _) = True"

fun truthy_opt :: "json option \<Rightarrow> bool" where
  "truthy_opt None = False"
| "truthy_opt (Some v) = truthy v"

text \<open>
  The code units that \<open>String.prototype.trim\<close> and \<open>parseInt\<close> skip: the WhiteSpace
  and LineTerminator code points of ECMAScript, all of them in the basic plane.
\<close>

definition is_space :: "16 word \<Rightarrow> bool" where
  "is_space c \<longleftrightarrow>
     c \<in> set [0x09, 0x0A, 0x0B, 0x0C, 0x0D, 0x20, 0xA0, 0x1680,
              0x2028, 0x2029, 0x202F, 0x205F, 0x3000, 0xFEFF]
     \<or> (0x2000 \<le> c \<and> c \<le> 0x200A)"

definition trim :: "jsstring \<Rightarrow> jsstring" where
  "trim s = rev (dropWhile is_space (rev (dropWhile is_space s)))"

text \<open>
  \<open>parseInt(string)\<close> with no radix: leading white space is skipped, then an optional
  sign, then an optional \<open>0x\<close>/\<open>0X\<close> (which selects radix 16), then the longest prefix
  of digits; \<open>NaN\<close> when that prefix is empty. Whatever follows the digits is
  ignored. The result is a double: it is the integer the digits spell when that is
  below \<open>2 ^ 53 = 9007199254740992\<close> in magnitude, where every integer is a double.
  From there on \<open>parseInt\<close> rounds (and, past 20 digits, may approximate); the model
  does not follow the rounding and gives \<open>Beyond\<close>, a number of magnitude at least
  \<open>2 ^ 53\<close>.
\<close>

datatype jsnumber = NaN | Integer int | Beyond

definition digit_val :: "nat \<Rightarrow> 16 word \<Rightarrow> nat option" where
  "digit_val radix c =
     (let v = (if 0x30 \<le> c \<and> c \<le> 0x39 then Some (unat c - 0x30)
               else if 0x61 \<le> c \<and> c \<le> 0x7A then Some (unat c - 0x61 + 10)
               else if 0x41 \<le> c \<and> c \<le> 0x5A then Some (unat c - 0x41 + 10)
               else None)
      in case v of
           None \<Rightarrow> None
         | Some d \<Rightarrow> if d < radix then Some d else None)"

fun digits_prefix :: "nat \<Rightarrow> jsstring \<Rightarrow> nat list" where
  "digits_prefix radix [] = []"
| "digits_prefix radix (c # cs) =
     (case digit_val radix c of
        None \<Rightarrow> []
      | Some d \<Rightarrow> d # digits_prefix radix cs)"

fun strip_sign :: "jsstring \<Rightarrow> bool \<times> jsstring" where
  "strip_sign [] = (False, [])"
| "strip_sign (c # cs) =
     (if c = 0x2D then (True, cs)
      else if c = 0x2B then (False, cs)
      else (False, c # cs))"

fun strip_prefix :: "jsstring \<Rightarrow> nat \<times> jsstring" where
  "strip_prefix (a # b # cs) =
     (if a = 0x30 \<and> (b = 0x78 \<or> b = 0x58) then (16, cs) else (10, a # b # cs))"
| "strip_prefix s = (10, s)"

definition parseInt :: "jsstring \<Rightarrow> jsnumber" where
  "parseInt str =
     (let (neg, s1) = strip_sign (dropWhile is_space str);
          (radix, s2) = strip_prefix s1;
          z = digits_prefix radix s2;
          n = int (foldl (\<lambda>a d. a * radix + d) 0 z)
      in if z = [] then NaN
         else if n < 9007199254740992 then Integer ((if neg then - 1 else 1) * n)
         else Beyond)"

section \<open>The task store\<close>

text \<open>
  The priority of a stored record is one of three strings. Every write of the field
  (the seed data, Create, Update) stores one of the literals \<open>low\<close>, \<open>medium\<close>,
  \<open>high\<close>, Create and Update after checking it against that list, so the field is an
  enumeration and \<open>priority_str\<close> gives the string the source holds.
\<close>

datatype priority = Low | Medium | High

fun priority_str :: "priority \<Rightarrow> jsstring" where
  "priority_str Low = js ''low''"
| "priority_str Medium = js ''medium''"
| "priority_str High = js ''high''"

text \<open>
  A timestamp is the clock's reading in milliseconds: the source stores its ISO-8601
  rendering and reads it back with \<open>new Date(...)\<close>, which gives the same milliseconds.
  The \<open>completed\<close> field holds whatever JSON value Update was given, unchecked.
\<close>

record todo =
  todo_id :: int
  todo_text :: jsstring
  completed :: json
  priority :: priority
  createdAt :: int
  updatedAt :: int

record store =
  todos :: "todo list"
  nextId :: int

text \<open>
  The successive readings of the clock (\<open>new Date()\<close>) during one evaluation:
  \<open>clk 0\<close> is the first reading, \<open>clk 1\<close> the second, and so on.
\<close>

type_synonym clock = "nat \<Rightarrow> int"

definition initial_todos :: "clock \<Rightarrow> todo list" where
  "initial_todos clk =
     [\<lparr>todo_id = 1,
       todo_text = js ''Node.js '' @ [0xBC30, 0xC6B0, 0xAE30],
       completed = JBool False, priority = High,
       createdAt = clk 0, updatedAt = clk 1\<rparr>,
      \<lparr>todo_id = 2,
       todo_text = js ''Express '' @ [0xC11C, 0xBC84, 0x20, 0xB9CC, 0xB4E4, 0xAE30],
       completed = JBool True, priority = Medium,
       createdAt = clk 2, updatedAt = clk 3\<rparr>,
      \<lparr>todo_id = 3,
       todo_text = js ''REST API '' @ [0xAD6C, 0xD604, 0xD558, 0xAE30],
       completed = JBool False, priority = High,
       createdAt = clk 4, updatedAt = clk 5\<rparr>]"

definition initial_store :: "clock \<Rightarrow> store" where
  "initial_store clk = \<lparr>todos = initial_todos clk, nextId = 4\<rparr>"

section \<open>Requests and responses\<close>

text \<open>
  The three variables each handler destructures from \<open>req.body\<close> and \<open>req.query\<close>;
  a key that is absent gives \<open>None\<close>. The query is always an object. The body is an
  object when the request carried one that the JSON or form parser accepted, and
  \<open>undefined\<close> otherwise (a request with no body): the handlers take it as a
  \<open>body option\<close>, and destructuring \<open>undefined\<close> throws a TypeError, which the
  handler's \<open>catch\<close> answers with 500.
\<close>

record body =
  b_text :: "json option"
  b_completed :: "json option"
  b_priority :: "json option"

record query =
  q_completed :: "json option"
  q_priority :: "json option"
  q_search :: "json option"

text \<open>The message literals of the source, one constructor each.\<close>

datatype message =
    MsgNotFound
  | MsgEnterText
  | MsgTooLong
  | MsgBadPriority
  | MsgCreated
  | MsgUpdated
  | MsgDeleted
  | MsgListError
  | MsgCreateError
  | MsgUpdateError
  | MsgDeleteError
  | MsgStatsError
  | MsgNoRoute

record stats =
  st_total :: nat
  st_completed :: nat
  st_active :: nat
  st_completionRate :: int
  st_high :: nat
  st_medium :: nat
  st_low :: nat

text \<open>
  The JSON bodies the handlers send. \<open>success\<close> is \<open>false\<close> in a \<open>Failure\<close> and
  \<open>true\<close> in every other body of the task routes.
\<close>

datatype payload =
    Info
  | HealthOk int
  | TodoList "todo list" nat nat
  | One todo
  | OneMsg todo message
  | DeletedCount nat "bool option"
  | StatsData stats
  | Failure message

type_synonym response = "nat \<times> payload"

section \<open>The handlers\<close>

text \<open>\<open>['low', 'medium', 'high'].includes(priority)\<close>, with the literal that matched.\<close>

fun priority_of :: "json option \<Rightarrow> priority option" where
  "priority_of (Some (JStr p)) =
     (if p = js ''low'' then Some Low
      else if p = js ''medium'' then Some Medium
      else if p = js ''high'' then Some High
      else None)"
| "priority_of _ = None"

fun findIndex :: "('a \<Rightarrow> bool) \<Rightarrow> 'a list \<Rightarrow> nat option" where
  "findIndex P [] = None"
| "findIndex P (x # xs) =
     (if P x then Some 0 else map_option Suc (findIndex P xs))"

text \<open>
  \<open>t.id === id\<close>, where \<open>id\<close> is the result of \<open>parseInt\<close>: never true of
  \<open>NaN\<close>, and not true of a number of magnitude \<open>2 ^ 53\<close> or more, since the ids
  of the records come from a counter that starts at 4 or 1 and moves by one.
\<close>

definition has_id :: "jsnumber \<Rightarrow> todo \<Rightarrow> bool" where
  "has_id i t \<longleftrightarrow> i = Integer (todo_id t)"

definition get_todo :: "store \<Rightarrow> jsstring \<Rightarrow> store \<times> response" where
  "get_todo s idp =
     (case find (has_id (parseInt idp)) (todos s) of
        None \<Rightarrow> (s, 404, Failure MsgNotFound)
      | Some t \<Rightarrow> (s, 200, One t))"

text \<open>The destructuring default \<open>priority = 'medium'\<close>: it applies to \<open>undefined\<close> only.\<close>

definition default_priority :: "json option \<Rightarrow> json option" where
  "default_priority p = (case p of None \<Rightarrow> Some (JStr (js ''medium'')) | Some v \<Rightarrow> Some v)"

definition create_todo :: "clock \<Rightarrow> store \<Rightarrow> body option \<Rightarrow> store \<times> response" where
  "create_todo clk s req_body =
     (case req_body of
        None \<Rightarrow> (s, 500, Failure MsgCreateError)
      | Some b \<Rightarrow>
          let text = b_text b;
              prio = default_priority (b_priority b)
          in if \<not> truthy_opt text then (s, 400, Failure MsgEnterText)
             else case text of
               Some (JStr t) \<Rightarrow>
                 if trim t = [] then (s, 400, Failure MsgEnterText)
                 else if length t > 100 then (s, 400, Failure MsgTooLong)
                 else (case priority_of prio of
                     None \<Rightarrow> (s, 400, Failure MsgBadPriority)
                   | Some p \<Rightarrow>
                       let newTodo = \<lparr>todo_id = nextId s, todo_text = trim t,
                                      completed = JBool False, priority = p,
                                      createdAt = clk 0, updatedAt = clk 1\<rparr>
                       in (s\<lparr>todos := todos s @ [newTodo], nextId := nextId s + 1\<rparr>,
                           201, OneMsg newTodo MsgCreated))
             | _ \<Rightarrow> (s, 500, Failure MsgCreateError))"

text \<open>
  Update, in two parts: \<open>update_todo\<close> destructures the body, which throws when
  there is none, before it looks the record up, and then checks the text;
  \<open>merge_todo\<close> is the rest of the handler, the check of the priority and the merge,
  given the trimmed text when the patch has one. \<open>text.trim()\<close> throws a TypeError
  when the text is present and not a string. The handler answers what is thrown
  with 500.
\<close>

definition merge_todo ::
  "clock \<Rightarrow> store \<Rightarrow> nat \<Rightarrow> jsstring option \<Rightarrow> body \<Rightarrow> store \<times> response" where
  "merge_todo clk s todoIndex trimmed b =
     (if b_priority b \<noteq> None \<and> priority_of (b_priority b) = None
      then (s, 400, Failure MsgBadPriority)
      else
        let old = todos s ! todoIndex;
            updatedTodo = old
              \<lparr>todo_text := (case trimmed of Some t \<Rightarrow> t | None \<Rightarrow> todo_text old),
               completed := (case b_completed b of Some c \<Rightarrow> c | None \<Rightarrow> completed old),
               priority := (case priority_of (b_priority b) of
                              Some p \<Rightarrow> p | None \<Rightarrow> priority old),
               updatedAt := clk 0\<rparr>
        in (s\<lparr>todos := (todos s)[todoIndex := updatedTodo]\<rparr>,
            200, OneMsg updatedTodo MsgUpdated))"

definition update_todo ::
  "clock \<Rightarrow> store \<Rightarrow> jsstring \<Rightarrow> body option \<Rightarrow> store \<times> response" where
  "update_todo clk s idp req_body =
     (case req_body of
        None \<Rightarrow> (s, 500, Failure MsgUpdateError)
      | Some b \<Rightarrow>
          (case findIndex (has_id (parseInt idp)) (todos s) of
             None \<Rightarrow> (s, 404, Failure MsgNotFound)
           | Some todoIndex \<Rightarrow>
               (case b_text b of
                  None \<Rightarrow> merge_todo clk s todoIndex None b
                | Some (JStr t) \<Rightarrow>
                    if trim t = [] then (s, 400, Failure MsgEnterText)
                    else if length t > 100 then (s, 400, Failure MsgTooLong)
                    else merge_todo clk s todoIndex (Some (trim t)) b
                | Some _ \<Rightarrow> (s, 500, Failure MsgUpdateError))))"

text \<open>\<open>todos.splice(todoIndex, 1)[0]\<close>: the record at the index is removed and returned.\<close>

definition delete_todo :: "store \<Rightarrow> jsstring \<Rightarrow> store \<times> response" where
  "delete_todo s idp =
     (case findIndex (has_id (parseInt idp)) (todos s) of
        None \<Rightarrow> (s, 404, Failure MsgNotFound)
      | Some todoIndex \<Rightarrow>
          let deletedTodo = todos s ! todoIndex
          in (s\<lparr>todos := take todoIndex (todos s) @ drop (Suc todoIndex) (todos s)\<rparr>,
              200, OneMsg deletedTodo MsgDeleted))"

definition delete_all_todos :: "store \<Rightarrow> query \<Rightarrow> store \<times> response" where
  "delete_all_todos s q =
     (case q_completed q of
        Some c \<Rightarrow>
          let isCompleted = (c = JStr (js ''true''));
              deletedCount = length (filter (\<lambda>t. completed t = JBool isCompleted) (todos s))
          in (s\<lparr>todos := filter (\<lambda>t. completed t \<noteq> JBool isCompleted) (todos s)\<rparr>,
              200, DeletedCount deletedCount (Some isCompleted))
      | None \<Rightarrow>
          let deletedCount = length (todos s)
          in (s\<lparr>todos := [], nextId := 1\<rparr>, 200, DeletedCount deletedCount None))"

subsection \<open>Listing\<close>

text \<open>
  Two operations of the JavaScript runtime are parameters of the model: the Unicode
  lower-casing of a string, and the double-precision expression
  \<open>Math.round((completed / total) * 100)\<close> of the statistics.
\<close>

record js_runtime =
  toLowerCase :: "jsstring \<Rightarrow> jsstring"
  percent :: "nat \<Rightarrow> nat \<Rightarrow> int"

text \<open>\<open>s.includes(p)\<close>: \<open>p\<close> occurs in \<open>s\<close> as a contiguous run.\<close>

fun includes_str :: "jsstring \<Rightarrow> jsstring \<Rightarrow> bool" where
  "includes_str [] p = (p = [])"
| "includes_str (c # cs) p = (take (length p) (c # cs) = p \<or> includes_str cs p)"

text \<open>
  The search filter. A search value that is truthy but not a string has no
  \<open>toLowerCase\<close>: the callback throws as soon as it is called, that is, when there is
  a record to test (\<open>None\<close>).
\<close>

definition search_todos :: "js_runtime \<Rightarrow> json option \<Rightarrow> todo list \<Rightarrow> todo list option" where
  "search_todos rt search xs =
     (if truthy_opt search then
        (case search of
           Some (JStr p) \<Rightarrow>
             Some (filter (\<lambda>t. includes_str (toLowerCase rt (todo_text t)) (toLowerCase rt p)) xs)
         | _ \<Rightarrow> if xs = [] then Some [] else None)
      else Some xs)"

fun priorityOrder :: "priority \<Rightarrow> int" where
  "priorityOrder High = 3"
| "priorityOrder Medium = 2"
| "priorityOrder Low = 1"

definition compare_todos :: "todo \<Rightarrow> todo \<Rightarrow> int" where
  "compare_todos a b =
     (if priorityOrder (priority a) \<noteq> priorityOrder (priority b)
      then priorityOrder (priority b) - priorityOrder (priority a)
      else createdAt b - createdAt a)"

text \<open>
  \<open>Array.prototype.sort\<close> with a comparator is a stable sort: elements that compare
  equal keep their order. For a comparator that orders consistently, which
  \<open>compare_todos\<close> does, there is one such result (\<open>js_sort_unique\<close> below),
  computed here by insertion.
\<close>

fun insert_by :: "('a \<Rightarrow> 'a \<Rightarrow> int) \<Rightarrow> 'a \<Rightarrow> 'a list \<Rightarrow> 'a list" where
  "insert_by cmp x [] = [x]"
| "insert_by cmp x (y # ys) =
     (if cmp x y \<le> 0 then x # y # ys else y # insert_by cmp x ys)"

fun js_sort :: "('a \<Rightarrow> 'a \<Rightarrow> int) \<Rightarrow> 'a list \<Rightarrow> 'a list" where
  "js_sort cmp [] = []"
| "js_sort cmp (x # xs) = insert_by cmp x (js_sort cmp xs)"

text \<open>The three filters of List, in the source's order, before the search.\<close>

definition filter_completed :: "json option \<Rightarrow> todo list \<Rightarrow> todo list" where
  "filter_completed c xs =
     (case c of
        None \<Rightarrow> xs
      | Some v \<Rightarrow>
          let isCompleted = (v = JStr (js ''true''))
          in filter (\<lambda>t. completed t = JBool isCompleted) xs)"

definition filter_priority :: "json option \<Rightarrow> todo list \<Rightarrow> todo list" where
  "filter_priority p xs =
     (if truthy_opt p \<and> p \<noteq> Some (JStr (js ''all''))
      then filter (\<lambda>t. Some (JStr (priority_str (priority t))) = p) xs
      else xs)"

definition list_todos :: "js_runtime \<Rightarrow> store \<Rightarrow> query \<Rightarrow> store \<times> response" where
  "list_todos rt s q =
     (case search_todos rt (q_search q)
             (filter_priority (q_priority q) (filter_completed (q_completed q) (todos s))) of
        None \<Rightarrow> (s, 500, Failure MsgListError)
      | Some filteredTodos \<Rightarrow>
          let sorted = js_sort compare_todos filteredTodos
          in (s, 200, TodoList sorted (length sorted) (length (todos s))))"

subsection \<open>Statistics\<close>

definition todo_stats :: "js_runtime \<Rightarrow> store \<Rightarrow> store \<times> response" where
  "todo_stats rt s =
     (let total = length (todos s);
          ncompleted = length (filter (\<lambda>t. truthy (completed t)) (todos s));
          active = total - ncompleted
      in (s, 200, StatsData
            \<lparr>st_total = total, st_completed = ncompleted, st_active = active,
             st_completionRate = (if total > 0 then percent rt ncompleted total else 0),
             st_high = length (filter (\<lambda>t. priority t = High) (todos s)),
             st_medium = length (filter (\<lambda>t. priority t = Medium) (todos s)),
             st_low = length (filter (\<lambda>t. priority t = Low) (todos s))\<rparr>))"

section \<open>Routing\<close>

text \<open>
  The routes in the order the source registers them: Express tries them in that order
  and the first whose method and path match answers the request (every handler of the
  source sends a response and none passes the request on). A path is the list of its
  segments; a literal segment matches without regard to the case of ASCII letters, a
  parameter matches any non-empty segment and binds it. The methods are those of the
  routes, and \<open>PATCH\<close> for a method that has no route.
\<close>

datatype http_method = GET | POST | PUT | DELETE | PATCH

datatype segment = Lit string | Param string

datatype endpoint =
    EpRoot | EpHealth | EpList | EpGet | EpCreate | EpUpdate | EpDelete | EpDeleteAll | EpStats

definition routes :: "(http_method \<times> segment list \<times> endpoint) list" where
  "routes =
     [(GET, [], EpRoot),
      (GET, [Lit ''api'', Lit ''health''], EpHealth),
      (GET, [Lit ''api'', Lit ''todos''], EpList),
      (GET, [Lit ''api'', Lit ''todos'', Param ''id''], EpGet),
      (POST, [Lit ''api'', Lit ''todos''], EpCreate),
      (PUT, [Lit ''api'', Lit ''todos'', Param ''id''], EpUpdate),
      (DELETE, [Lit ''api'', Lit ''todos'', Param ''id''], EpDelete),
      (DELETE, [Lit ''api'', Lit ''todos''], EpDeleteAll),
      (GET, [Lit ''api'', Lit ''todos'', Lit ''stats''], EpStats)]"

definition ascii_lower :: "16 word \<Rightarrow> 16 word" where
  "ascii_lower c = (if 0x41 \<le> c \<and> c \<le> 0x5A then c + 0x20 else c)"

fun match_path :: "segment list \<Rightarrow> jsstring list \<Rightarrow> (string \<times> jsstring) list option" where
  "match_path [] [] = Some []"
| "match_path (Lit l # ps) (x # xs) =
     (if map ascii_lower x = map ascii_lower (js l) then match_path ps xs else None)"
| "match_path (Param n # ps) (x # xs) =
     (if x = [] then None else map_option ((#) (n, x)) (match_path ps xs))"
| "match_path _ _ = None"

fun dispatch ::
  "(http_method \<times> segment list \<times> endpoint) list \<Rightarrow> http_method \<Rightarrow> jsstring list
     \<Rightarrow> (endpoint \<times> (string \<times> jsstring) list) option" where
  "dispatch [] m p = None"
| "dispatch ((m', pat, ep) # rs) m p =
     (if m' = m then
        (case match_path pat p of
           Some params \<Rightarrow> Some (ep, params)
         | None \<Rightarrow> dispatch rs m p)
      else dispatch rs m p)"

text \<open>\<open>req.params.id\<close> as \<open>parseInt\<close> reads it: the string \<open>undefined\<close> when unbound.\<close>

definition param_id :: "(string \<times> jsstring) list \<Rightarrow> jsstring" where
  "param_id params = (case map_of params ''id'' of Some v \<Rightarrow> v | None \<Rightarrow> js ''undefined'')"

record request =
  rq_method :: http_method
  rq_path :: "jsstring list"
  rq_query :: query
  rq_body :: "body option"
  rq_clock :: clock

text \<open>
  One request against the store: the new store and the response. A request that no
  route matches is answered by the catch-all registered last.
\<close>

definition handle :: "js_runtime \<Rightarrow> store \<Rightarrow> request \<Rightarrow> store \<times> response" where
  "handle rt s r =
     (case dispatch routes (rq_method r) (rq_path r) of
        None \<Rightarrow> (s, 404, Failure MsgNoRoute)
      | Some (ep, params) \<Rightarrow>
          (case ep of
             EpRoot \<Rightarrow> (s, 200, Info)
           | EpHealth \<Rightarrow> (s, 200, HealthOk (rq_clock r 0))
           | EpList \<Rightarrow> list_todos rt s (rq_query r)
           | EpGet \<Rightarrow> get_todo s (param_id params)
           | EpCreate \<Rightarrow> create_todo (rq_clock r) s (rq_body r)
           | EpUpdate \<Rightarrow> update_todo (rq_clock r) s (param_id params) (rq_body r)
           | EpDelete \<Rightarrow> delete_todo s (param_id params)
           | EpDeleteAll \<Rightarrow> delete_all_todos s (rq_query r)
           | EpStats \<Rightarrow> todo_stats rt s))"

fun run :: "js_runtime \<Rightarrow> store \<Rightarrow> request list \<Rightarrow> store" where
  "run rt s [] = s"
| "run rt s (r # rs) = run rt (fst (handle rt s r)) rs"

section \<open>Vocabulary of the properties\<close>

text \<open>The HTTP status of an outcome.\<close>

definition status :: "store \<times> response \<Rightarrow> nat" where
  "status x = fst (snd x)"



text \<open>
  Concrete inputs for evaluating the model: a clock that reads the same millisecond at
  every reading, a runtime that lower-cases ASCII letters and rounds the exact
  percentage, a query with no parameter and a body with no key.
\<close>

definition clock_at :: "int \<Rightarrow> clock" where
  "clock_at t = (\<lambda>_. t)"

definition ascii_runtime :: js_runtime where
  "ascii_runtime = \<lparr>toLowerCase = map ascii_lower,
                     percent = (\<lambda>c t. (200 * int c + int t) div (2 * int t))\<rparr>"

definition no_query :: query where
  "no_query = \<lparr>q_completed = None, q_priority = None, q_search = None\<rparr>"

definition no_body :: body where
  "no_body = \<lparr>b_text = None, b_completed = None, b_priority = None\<rparr>"

definition example_todo :: "int \<Rightarrow> priority \<Rightarrow> int \<Rightarrow> todo" where
  "example_todo i p t =
     \<lparr>todo_id = i, todo_text = js ''task'', completed = JBool False, priority = p,
      createdAt = t, updatedAt = t\<rparr>"

definition request_of ::
  "http_method \<Rightarrow> jsstring list \<Rightarrow> query \<Rightarrow> body option \<Rightarrow> clock \<Rightarrow> request" where
  "request_of m p q b clk =
     \<lparr>rq_method = m, rq_path = p, rq_query = q, rq_body = b, rq_clock = clk\<rparr>"

definition create_request :: "string \<Rightarrow> request" where
  "create_request t =
     request_of POST [js ''api'', js ''todos''] no_query
       (Some (no_body\<lparr>b_text := Some (JStr (js t))\<rparr>)) (clock_at 0)"

definition delete_request :: "string \<Rightarrow> request" where
  "delete_request i =
     request_of DELETE [js ''api'', js ''todos'', js i] no_query None (clock_at 0)"

text \<open>
  The order the listing is specified to have: priority descending under the weights
  high 3, medium 2, low 1 and, for equal priority, \<open>createdAt\<close> descending.
\<close>

definition ordered_before :: "todo \<Rightarrow> todo \<Rightarrow> bool" where
  "ordered_before a b \<longleftrightarrow>
     priorityOrder (priority a) > priorityOrder (priority b)
     \<or> (priorityOrder (priority a) = priorityOrder (priority b) \<and> createdAt a \<ge> createdAt b)"

text \<open>
  The same order as a key, compared lexicographically: the key of the stable sort that
  the listing is.
\<close>

definition sort_key_of :: "todo \<Rightarrow> int \<times> int" where
  "sort_key_of t = (- priorityOrder (priority t), - createdAt t)"

text \<open>
  A clock that does not go back: the readings the handlers take (the first two of each
  request) are in order within a request and from one request to the next, starting
  from the reading \<open>t\<close>; \<open>last_reading\<close> is the latest of them. \<open>stamps_le t s\<close> says
  that no record of \<open>s\<close> was stamped after \<open>t\<close>.
\<close>

fun readings_ordered :: "int \<Rightarrow> request list \<Rightarrow> bool" where
  "readings_ordered t [] = True"
| "readings_ordered t (r # rs) =
     (t \<le> rq_clock r 0 \<and> rq_clock r 0 \<le> rq_clock r 1 \<and> readings_ordered (rq_clock r 1) rs)"

fun last_reading :: "int \<Rightarrow> request list \<Rightarrow> int" where
  "last_reading t [] = t"
| "last_reading t (r # rs) = last_reading (rq_clock r 1) rs"

definition stamps_le :: "int \<Rightarrow> store \<Rightarrow> bool" where
  "stamps_le t s \<longleftrightarrow> (\<forall>x\<in>set (todos s). updatedAt x \<le> t)"

text \<open>
  The invariant of the store: the ids of the records are pairwise distinct and all
  below the counter.
\<close>

definition ids_inv :: "store \<Rightarrow> bool" where
  "ids_inv s \<longleftrightarrow>
     distinct (map todo_id (todos s)) \<and> (\<forall>t\<in>set (todos s). todo_id t < nextId s)"

text \<open>
  A step that allocates no id: the counter stays, no id appears that was not there,
  and distinct ids stay distinct.
\<close>

definition keeps_ids :: "store \<Rightarrow> store \<Rightarrow> bool" where
  "keeps_ids s s' \<longleftrightarrow>
     nextId s' = nextId s
     \<and> set (map todo_id (todos s')) \<subseteq> set (map todo_id (todos s))
     \<and> (distinct (map todo_id (todos s)) \<longrightarrow> distinct (map todo_id (todos s')))"

text \<open>The request that resets the counter: DeleteAll with no \<open>completed\<close> filter.\<close>

definition is_reset :: "request \<Rightarrow> bool" where
  "is_reset r \<longleftrightarrow>
     map_option fst (dispatch routes (rq_method r) (rq_path r)) = Some EpDeleteAll
     \<and> q_completed (rq_query r) = None"

text \<open>The id a response reports as created (the 201 of Create), if any.\<close>

fun created_id :: "response \<Rightarrow> int option" where
  "created_id (st, OneMsg t m) = (if st = 201 then Some (todo_id t) else None)"
| "created_id _ = None"

text \<open>The ids created, in order, while a list of requests runs.\<close>

fun created_ids :: "js_runtime \<Rightarrow> store \<Rightarrow> request list \<Rightarrow> int list" where
  "created_ids rt s [] = []"
| "created_ids rt s (r # rs) =
     (case created_id (snd (handle rt s r)) of
        None \<Rightarrow> created_ids rt (fst (handle rt s r)) rs
      | Some i \<Rightarrow> i # created_ids rt (fst (handle rt s r)) rs)"

section \<open>Basic facts about the handlers\<close>

lemma find_has_id_NaN: "find (has_id NaN) xs = None"
  by (induction xs) (simp_all add: has_id_def)


lemma trim_Nil: "trim [] = []"
  by (simp add: trim_def)

lemma priority_of_default_None:
  "b_priority b = None \<Longrightarrow> priority_of (default_priority (b_priority b)) = Some Medium"
  by (simp add: default_priority_def js_def)

lemma default_priority_Some: "default_priority (Some v) = Some v"
  by (simp add: default_priority_def)

lemma priority_of_str: "priority_of (Some (JStr (priority_str x))) = Some x"
  by (cases x) (simp_all add: js_def)

lemma priority_of_Some_iff: "priority_of p = Some x \<longleftrightarrow> p = Some (JStr (priority_str x))"
proof (cases p)
  case None
  then show ?thesis by simp
next
  case (Some v)
  then show ?thesis by (cases v; cases x; auto simp: js_def)
qed

text \<open>Create, by the shape of the text it is given.\<close>

lemma create_todo_no_body: "create_todo clk s None = (s, 500, Failure MsgCreateError)"
  by (simp add: create_todo_def)

lemma create_todo_str:
  "b_text b = Some (JStr t) \<Longrightarrow>
   create_todo clk s (Some b) =
     (if trim t = [] then (s, 400, Failure MsgEnterText)
      else if length t > 100 then (s, 400, Failure MsgTooLong)
      else case priority_of (default_priority (b_priority b)) of
             None \<Rightarrow> (s, 400, Failure MsgBadPriority)
           | Some p \<Rightarrow>
               (s\<lparr>todos := todos s @ [\<lparr>todo_id = nextId s, todo_text = trim t,
                     completed = JBool False, priority = p,
                     createdAt = clk 0, updatedAt = clk 1\<rparr>],
                  nextId := nextId s + 1\<rparr>,
                201, OneMsg \<lparr>todo_id = nextId s, todo_text = trim t,
                     completed = JBool False, priority = p,
                     createdAt = clk 0, updatedAt = clk 1\<rparr> MsgCreated))"
  by (cases "t = []") (simp_all add: create_todo_def Let_def trim_Nil split: option.split)

lemma create_todo_nonstr:
  assumes "\<forall>t. b_text b \<noteq> Some (JStr t)"
  shows "create_todo clk s (Some b) =
     (if truthy_opt (b_text b) then (s, 500, Failure MsgCreateError)
      else (s, 400, Failure MsgEnterText))"
proof (cases "b_text b")
  case None
  then show ?thesis by (simp add: create_todo_def)
next
  case (Some v)
  with assms show ?thesis by (cases v) (simp_all add: create_todo_def)
qed

text \<open>Update, by the outcome of the lookup and the shape of the text.\<close>

lemma update_todo_no_body: "update_todo clk s idp None = (s, 500, Failure MsgUpdateError)"
  by (simp add: update_todo_def)

lemma update_todo_missing:
  "findIndex (has_id (parseInt idp)) (todos s) = None \<Longrightarrow>
   update_todo clk s idp (Some b) = (s, 404, Failure MsgNotFound)"
  by (simp add: update_todo_def)

lemma update_todo_str:
  "findIndex (has_id (parseInt idp)) (todos s) = Some i \<Longrightarrow> b_text b = Some (JStr t) \<Longrightarrow>
   update_todo clk s idp (Some b) =
     (if trim t = [] then (s, 400, Failure MsgEnterText)
      else if length t > 100 then (s, 400, Failure MsgTooLong)
      else merge_todo clk s i (Some (trim t)) b)"
  by (simp add: update_todo_def)

lemma update_todo_absent:
  "findIndex (has_id (parseInt idp)) (todos s) = Some i \<Longrightarrow> b_text b = None \<Longrightarrow>
   update_todo clk s idp (Some b) = merge_todo clk s i None b"
  by (simp add: update_todo_def)

lemma update_todo_nonstr:
  "findIndex (has_id (parseInt idp)) (todos s) = Some i \<Longrightarrow> b_text b = Some v \<Longrightarrow>
   \<forall>t. v \<noteq> JStr t \<Longrightarrow>
   update_todo clk s idp (Some b) = (s, 500, Failure MsgUpdateError)"
  by (cases v) (simp_all add: update_todo_def)

lemma merge_todo_bad_priority:
  "b_priority b = Some p \<Longrightarrow> priority_of (Some p) = None \<Longrightarrow>
   merge_todo clk s i tr b = (s, 400, Failure MsgBadPriority)"
  by (simp add: merge_todo_def)

lemma merge_todo_ok:
  "b_priority b = None \<or> priority_of (b_priority b) \<noteq> None \<Longrightarrow>
   merge_todo clk s i tr b =
     (s\<lparr>todos := (todos s)[i := (todos s ! i)
              \<lparr>todo_text := (case tr of Some t \<Rightarrow> t | None \<Rightarrow> todo_text (todos s ! i)),
               completed := (case b_completed b of
                               Some c \<Rightarrow> c | None \<Rightarrow> completed (todos s ! i)),
               priority := (case priority_of (b_priority b) of
                              Some p \<Rightarrow> p | None \<Rightarrow> priority (todos s ! i)),
               updatedAt := clk 0\<rparr>]\<rparr>,
      200,
      OneMsg ((todos s ! i)
              \<lparr>todo_text := (case tr of Some t \<Rightarrow> t | None \<Rightarrow> todo_text (todos s ! i)),
               completed := (case b_completed b of
                               Some c \<Rightarrow> c | None \<Rightarrow> completed (todos s ! i)),
               priority := (case priority_of (b_priority b) of
                              Some p \<Rightarrow> p | None \<Rightarrow> priority (todos s ! i)),
               updatedAt := clk 0\<rparr>) MsgUpdated)"
  by (auto simp: merge_todo_def Let_def)

lemma merge_todo_status:
  "b_priority b = None \<or> priority_of (b_priority b) \<noteq> None \<Longrightarrow>
   status (merge_todo clk s i tr b) = 200"
  by (simp add: merge_todo_ok status_def)

lemma create_allocates_nextId:
  assumes "create_todo clk s req_body = (s', 201, OneMsg t m)"
  shows "todo_id t = nextId s \<and> nextId s' = nextId s + 1"
proof (cases req_body)
  case None
  with assms show ?thesis by (simp add: create_todo_no_body)
next
  case (Some b)
  note c = assms[unfolded Some]
  show ?thesis
  proof (cases "\<exists>x. b_text b = Some (JStr x)")
    case True
    then obtain x where "b_text b = Some (JStr x)" by blast
    from c show ?thesis
      unfolding create_todo_str[OF \<open>b_text b = Some (JStr x)\<close>]
      by (auto split: if_splits option.splits)
  next
    case False
    then have "\<forall>t. b_text b \<noteq> Some (JStr t)" by simp
    from c show ?thesis
      unfolding create_todo_nonstr[OF \<open>\<forall>t. b_text b \<noteq> Some (JStr t)\<close>]
      by (auto split: if_splits)
  qed
qed

section \<open>The store at process start\<close>

text \<open>
  C4: at process start the collection holds exactly three records, with ids 1, 2 and 3
  (1 and 3 of priority high and not completed, 2 of priority medium and completed), the
  id counter is 4, and the first Create of a fresh process allocates id 4, not 1.
\<close>

theorem initial_store_seeded:
  "map todo_id (todos (initial_store clk)) = [1, 2, 3]
   \<and> map priority (todos (initial_store clk)) = [High, Medium, High]
   \<and> map completed (todos (initial_store clk)) = [JBool False, JBool True, JBool False]
   \<and> nextId (initial_store clk) = 4
   \<and> (\<forall>s' t m. create_todo clk' (initial_store clk) b = (s', 201, OneMsg t m)
         \<longrightarrow> todo_id t = 4 \<and> nextId s' = 5)"
proof -
  have ids: "map todo_id (todos (initial_store clk)) = [1, 2, 3]"
    and prios: "map priority (todos (initial_store clk)) = [High, Medium, High]"
    and dones: "map completed (todos (initial_store clk)) = [JBool False, JBool True, JBool False]"
    and counter: "nextId (initial_store clk) = 4"
    by (simp_all add: initial_store_def initial_todos_def)
  have "todo_id t = 4 \<and> nextId s' = 5"
    if "create_todo clk' (initial_store clk) b = (s', 201, OneMsg t m)" for s' t m
    using create_allocates_nextId[OF that] counter by simp
  then have first: "\<forall>s' t m. create_todo clk' (initial_store clk) b = (s', 201, OneMsg t m)
         \<longrightarrow> todo_id t = 4 \<and> nextId s' = 5"
    by blast
  show ?thesis
    by (intro conjI ids prios dones counter first)
qed

theorem initial_store_seeded_witness:
  "create_todo (clock_at 0) (initial_store (clock_at 0))
       (Some \<lparr>b_text = Some (JStr (js ''Buy milk'')), b_completed = None, b_priority = None\<rparr>)
     = (\<lparr>todos = initial_todos (clock_at 0) @
                 [\<lparr>todo_id = 4, todo_text = js ''Buy milk'', completed = JBool False,
                   priority = Medium, createdAt = 0, updatedAt = 0\<rparr>],
         nextId = 5\<rparr>,
        201,
        OneMsg \<lparr>todo_id = 4, todo_text = js ''Buy milk'', completed = JBool False,
                priority = Medium, createdAt = 0, updatedAt = 0\<rparr> MsgCreated)
   \<and> todo_id \<lparr>todo_id = 4, todo_text = js ''Buy milk'', completed = JBool False,
              priority = Medium, createdAt = 0, updatedAt = (0::int)\<rparr> = 4"
proof -
  have e: "create_todo (clock_at 0) (initial_store (clock_at 0))
       (Some \<lparr>b_text = Some (JStr (js ''Buy milk'')), b_completed = None, b_priority = None\<rparr>)
     = (\<lparr>todos = initial_todos (clock_at 0) @
                 [\<lparr>todo_id = 4, todo_text = js ''Buy milk'', completed = JBool False,
                   priority = Medium, createdAt = 0, updatedAt = 0\<rparr>],
         nextId = 5\<rparr>,
        201,
        OneMsg \<lparr>todo_id = 4, todo_text = js ''Buy milk'', completed = JBool False,
                priority = Medium, createdAt = 0, updatedAt = 0\<rparr> MsgCreated)"
    by (simp add: initial_store_def create_todo_def default_priority_def Let_def js_def
          trim_def is_space_def clock_at_def)
  have w: "todo_id \<lparr>todo_id = 4, todo_text = js ''Buy milk'', completed = JBool False,
              priority = Medium, createdAt = 0, updatedAt = (0::int)\<rparr> = 4"
    using initial_store_seeded [THEN conjunct2, THEN conjunct2, THEN conjunct2,
        THEN conjunct2, rule_format, OF e]
    by (rule conjunct1)
  show ?thesis using e w by (rule conjI)
qed

section \<open>Routing of the statistics request\<close>

lemma dispatch_stats_path:
  "dispatch routes GET [js ''api'', js ''todos'', js ''stats'']
     = Some (EpGet, [(''id'', js ''stats'')])"
  by (simp add: routes_def js_def ascii_lower_def)

lemma parseInt_stats: "parseInt (js ''stats'') = NaN"
  by code_simp

lemma match_path_stats_get:
  "match_path [Lit ''api'', Lit ''todos'', Lit ''stats''] p = Some ps \<Longrightarrow>
   match_path [Lit ''api'', Lit ''todos'', Param ''id''] p \<noteq> None"
  apply (cases p; simp split: if_splits)
  subgoal for a p1
    apply (cases p1; simp split: if_splits)
    subgoal for b p2
      apply (cases p2; simp split: if_splits)
      subgoal for c p3
        by (cases p3; auto simp: js_def)
      done
    done
  done

lemma dispatch_never_stats: "dispatch routes m p \<noteq> Some (EpStats, ps)"
proof (cases "match_path [Lit ''api'', Lit ''todos'', Lit ''stats''] p")
  case None
  then show ?thesis by (simp add: routes_def split: option.splits)
next
  case (Some a)
  from match_path_stats_get[OF this] show ?thesis
    by (auto simp add: routes_def split: option.splits)
qed

text \<open>
  C1, as the code has it: a GET of \<open>/api/todos/stats\<close> is matched by the route
  \<open>/api/todos/:id\<close>, which is registered first; \<open>parseInt\<close> of \<open>stats\<close> is \<open>NaN\<close>,
  no record has that id, and the answer is the 404 of Get-one in every state of the
  store. No request at all reaches the statistics handler.
\<close>

theorem stats_request_not_found:
  "handle rt s (request_of GET [js ''api'', js ''todos'', js ''stats''] q b clk)
     = (s, 404, Failure MsgNotFound)
   \<and> handle rt s (request_of GET [js ''api'', js ''todos'', js ''stats''] q b clk)
     = get_todo s (js ''stats'')
   \<and> dispatch routes m p \<noteq> Some (EpStats, ps)"
  by (simp add: handle_def request_of_def dispatch_stats_path param_id_def get_todo_def
        parseInt_stats find_has_id_NaN dispatch_never_stats)

theorem stats_request_not_found_witness:
  "handle ascii_runtime (initial_store (clock_at 0))
      (request_of GET [js ''api'', js ''todos'', js ''stats''] no_query None (clock_at 0))
     = (initial_store (clock_at 0), 404, Failure MsgNotFound)"
  using stats_request_not_found [of ascii_runtime "initial_store (clock_at 0)" no_query None
      "clock_at 0" GET "[]" "[]"]
  by (rule conjunct1)

section \<open>Ids that do not parse\<close>












section \<open>Validation of the text\<close>

text \<open>
  C2, as the code has it: Create and Update trim the text for the emptiness check and
  for the stored value, but compare the length of the text as given, surrounding white
  space included, with 100. For a text that is a string, with a priority that is valid
  or absent (and, for Update, an id that exists), the operation fails with
  InvalidInput (400) exactly when the trimmed text is empty or the untrimmed text is
  longer than 100 code units, and succeeds otherwise.
\<close>

theorem text_length_checked_untrimmed:
  assumes t: "b_text b = Some (JStr t)"
    and p: "b_priority b = None \<or> priority_of (b_priority b) \<noteq> None"
  shows "(status (create_todo clk s (Some b)) = 400 \<longleftrightarrow> trim t = [] \<or> length t > 100)
   \<and> (status (create_todo clk s (Some b)) \<noteq> 400 \<longrightarrow> status (create_todo clk s (Some b)) = 201)
   \<and> (findIndex (has_id (parseInt idp)) (todos s) \<noteq> None \<longrightarrow>
        (status (update_todo clk s idp (Some b)) = 400 \<longleftrightarrow> trim t = [] \<or> length t > 100)
        \<and> (status (update_todo clk s idp (Some b)) \<noteq> 400
              \<longrightarrow> status (update_todo clk s idp (Some b)) = 200))"
proof -
  obtain x where x: "priority_of (default_priority (b_priority b)) = Some x"
    using p priority_of_default_None[of b]
    by (cases "b_priority b") (auto simp: default_priority_Some)
  have c: "status (create_todo clk s (Some b)) = (if trim t = [] \<or> length t > 100 then 400 else 201)"
    by (simp add: create_todo_str[OF t] x status_def)
  have u: "status (update_todo clk s idp (Some b)) = (if trim t = [] \<or> length t > 100 then 400 else 200)"
    if "findIndex (has_id (parseInt idp)) (todos s) = Some i" for i
    using merge_todo_status[OF p, of clk s i "Some (trim t)"]
    by (simp add: update_todo_str[OF that t]) (simp add: status_def)
  show ?thesis using c u by auto
qed

theorem text_length_checked_untrimmed_witness:
  "status (create_todo (clock_at 0) (initial_store (clock_at 0))
      (Some \<lparr>b_text = Some (JStr (js '' Buy milk '')), b_completed = None,
             b_priority = None\<rparr>)) = 201
   \<and> status (update_todo (clock_at 0) (initial_store (clock_at 0)) (js ''1'')
      (Some \<lparr>b_text = Some (JStr (js '' Buy milk '')), b_completed = None,
             b_priority = None\<rparr>)) = 200"
proof -
  let ?b = "\<lparr>b_text = Some (JStr (js '' Buy milk '')), b_completed = None, b_priority = None\<rparr>"
  have t: "b_text ?b = Some (JStr (js '' Buy milk ''))" by simp
  have p: "b_priority ?b = None \<or> priority_of (b_priority ?b) \<noteq> None" by simp
  have ok: "\<not> (trim (js '' Buy milk '') = [] \<or> length (js '' Buy milk '') > 100)"
    by (simp add: js_def trim_def is_space_def)
  have f: "findIndex (has_id (parseInt (js ''1''))) (todos (initial_store (clock_at 0))) \<noteq> None"
    by code_simp
  note th = text_length_checked_untrimmed [OF t p, of "clock_at 0" "initial_store (clock_at 0)"
      "js ''1''"]
  have c: "status (create_todo (clock_at 0) (initial_store (clock_at 0)) (Some ?b)) = 201"
    using th[THEN conjunct1] th[THEN conjunct2, THEN conjunct1] ok by blast
  have u: "status (update_todo (clock_at 0) (initial_store (clock_at 0)) (js ''1'') (Some ?b)) = 200"
    using th[THEN conjunct2, THEN conjunct2, THEN mp, OF f] ok by blast
  show ?thesis using c u by (rule conjI)
qed

text \<open>
  The claim as stated fails: the text \<open>Buy milk\<close> followed by 93 spaces has 101 code
  units and trims to 8, yet Create and Update both reject it as too long.
\<close>

theorem padded_text_rejected:
  "length (trim (js ''Buy milk'' @ replicate 93 0x20)) \<le> 100
   \<and> trim (js ''Buy milk'' @ replicate 93 0x20) = js ''Buy milk''
   \<and> create_todo (clock_at 0) (initial_store (clock_at 0))
        (Some \<lparr>b_text = Some (JStr (js ''Buy milk'' @ replicate 93 0x20)),
               b_completed = None, b_priority = None\<rparr>)
      = (initial_store (clock_at 0), 400, Failure MsgTooLong)
   \<and> update_todo (clock_at 0) (initial_store (clock_at 0)) (js ''1'')
        (Some \<lparr>b_text = Some (JStr (js ''Buy milk'' @ replicate 93 0x20)),
               b_completed = None, b_priority = None\<rparr>)
      = (initial_store (clock_at 0), 400, Failure MsgTooLong)"
  by code_simp

section \<open>The priority filter of List\<close>

text \<open>
  C3, as the code has it: the priority filter is bypassed when the value is absent,
  falsy (the empty string) or the sentinel \<open>all\<close>, and then the result is that of the
  same call with no priority filter. Every other value filters by strict equality
  with the record's priority: a value that is none of the three priorities matches no
  record and the result is empty; one of the three keeps the records of that priority.
\<close>

theorem priority_filter_bypass:
  "(\<not> truthy_opt p \<or> p = Some (JStr (js ''all'')) \<longrightarrow>
      list_todos rt s (q\<lparr>q_priority := p\<rparr>) = list_todos rt s (q\<lparr>q_priority := None\<rparr>))
   \<and> (truthy_opt p \<and> p \<noteq> Some (JStr (js ''all'')) \<and> priority_of p = None \<longrightarrow>
      list_todos rt s (q\<lparr>q_priority := p\<rparr>) = (s, 200, TodoList [] 0 (length (todos s))))
   \<and> (priority_of p = Some x \<longrightarrow>
      filter_priority p xs = filter (\<lambda>t. priority t = x) xs)"
proof (intro conjI impI)
  assume "\<not> truthy_opt p \<or> p = Some (JStr (js ''all''))"
  then show "list_todos rt s (q\<lparr>q_priority := p\<rparr>) = list_todos rt s (q\<lparr>q_priority := None\<rparr>)"
    by (auto simp: list_todos_def filter_priority_def)
next
  assume a: "truthy_opt p \<and> p \<noteq> Some (JStr (js ''all'')) \<and> priority_of p = None"
  have "Some (JStr (priority_str (priority t))) \<noteq> p" for t :: todo
    using a priority_of_str[of "priority t"] by auto
  then have "filter_priority p ys = []" for ys
    using a by (simp add: filter_priority_def)
  then show "list_todos rt s (q\<lparr>q_priority := p\<rparr>) = (s, 200, TodoList [] 0 (length (todos s)))"
    by (simp add: list_todos_def search_todos_def split: option.splits json.splits)
next
  assume a: "priority_of p = Some x"
  then have p: "p = Some (JStr (priority_str x))" by (simp add: priority_of_Some_iff)
  have inj: "priority_str a = priority_str x \<longleftrightarrow> a = x" for a
    by (cases a; cases x; simp add: js_def)
  have "truthy_opt p \<and> p \<noteq> Some (JStr (js ''all''))"
    unfolding p by (cases x; simp add: js_def)
  then show "filter_priority p xs = filter (\<lambda>t. priority t = x) xs"
    by (simp add: filter_priority_def p inj)
qed

theorem priority_filter_bypass_witness:
  "list_todos ascii_runtime (initial_store (clock_at 0)) (no_query\<lparr>q_priority := Some (JStr (js ''all''))\<rparr>)
     = list_todos ascii_runtime (initial_store (clock_at 0)) (no_query\<lparr>q_priority := None\<rparr>)
   \<and> list_todos ascii_runtime (initial_store (clock_at 0))
        (no_query\<lparr>q_priority := Some (JStr (js ''urgent''))\<rparr>)
     = (initial_store (clock_at 0), 200, TodoList [] 0 (length (todos (initial_store (clock_at 0)))))
   \<and> filter_priority (Some (JStr (js ''high''))) (todos (initial_store (clock_at 0)))
     = filter (\<lambda>t. priority t = High) (todos (initial_store (clock_at 0)))"
proof -
  have a: "\<not> truthy_opt (Some (JStr (js ''all''))) \<or> Some (JStr (js ''all'')) = Some (JStr (js ''all''))"
    by simp
  have u: "truthy_opt (Some (JStr (js ''urgent'')))
      \<and> Some (JStr (js ''urgent'')) \<noteq> Some (JStr (js ''all''))
      \<and> priority_of (Some (JStr (js ''urgent''))) = None"
    by (simp add: js_def)
  have h: "priority_of (Some (JStr (js ''high''))) = Some High"
    by (simp add: js_def)
  show ?thesis
    by (intro conjI
        priority_filter_bypass [of "Some (JStr (js ''all''))" ascii_runtime
            "initial_store (clock_at 0)" no_query High "[]", THEN conjunct1, THEN mp, OF a]
        priority_filter_bypass [of "Some (JStr (js ''urgent''))" ascii_runtime
            "initial_store (clock_at 0)" no_query High "[]",
            THEN conjunct2, THEN conjunct1, THEN mp, OF u]
        priority_filter_bypass [of "Some (JStr (js ''high''))" ascii_runtime
            "initial_store (clock_at 0)" no_query High "todos (initial_store (clock_at 0))",
            THEN conjunct2, THEN conjunct2, THEN mp, OF h])
qed

text \<open>
  The claim as stated fails: on the seeded store the filter value \<open>urgent\<close> gives an
  empty list, while the same call with no priority filter gives the three records.
\<close>

theorem unknown_priority_filters_everything:
  "list_todos ascii_runtime (initial_store (clock_at 0))
      \<lparr>q_completed = None, q_priority = Some (JStr (js ''urgent'')), q_search = None\<rparr>
     = (initial_store (clock_at 0), 200, TodoList [] 0 3)
   \<and> list_todos ascii_runtime (initial_store (clock_at 0))
      \<lparr>q_completed = None, q_priority = None, q_search = None\<rparr>
     = (initial_store (clock_at 0), 200,
        TodoList [todos (initial_store (clock_at 0)) ! 0, todos (initial_store (clock_at 0)) ! 2,
                  todos (initial_store (clock_at 0)) ! 1] 3 3)
   \<and> list_todos ascii_runtime (initial_store (clock_at 0))
      \<lparr>q_completed = None, q_priority = Some (JStr (js ''urgent'')), q_search = None\<rparr>
     \<noteq> list_todos ascii_runtime (initial_store (clock_at 0))
      \<lparr>q_completed = None, q_priority = None, q_search = None\<rparr>"
  by (simp add: list_todos_def filter_priority_def filter_completed_def search_todos_def
       initial_store_def initial_todos_def clock_at_def js_def compare_todos_def)

section \<open>Bulk deletion\<close>

lemma length_filter_complement:
  "length (filter P xs) + length (filter (\<lambda>x. \<not> P x) xs) = length xs"
  by (induction xs) simp_all

text \<open>
  C5: DeleteAll with no \<open>completed\<close> filter removes every record, sets the id counter
  to 1 and returns the number of records there were, so that the next Create allocates
  id 1. DeleteAll with a \<open>completed\<close> filter removes exactly the records whose
  \<open>completed\<close> field equals the filter's boolean (\<open>true\<close> for the query value
  \<open>true\<close>, \<open>false\<close> for any other), keeps the others in their order, returns the
  number removed and leaves the id counter as it was, so that the next Create continues
  from it.
\<close>

theorem delete_all_effect:
  "(q_completed q = None \<longrightarrow>
      delete_all_todos s q
        = (\<lparr>todos = [], nextId = 1\<rparr>, 200, DeletedCount (length (todos s)) None)
      \<and> (\<forall>s' t m. create_todo clk (fst (delete_all_todos s q)) b = (s', 201, OneMsg t m)
            \<longrightarrow> todo_id t = 1))
   \<and> (q_completed q = Some c \<and> isCompleted = (c = JStr (js ''true''))
        \<and> s1 = fst (delete_all_todos s q) \<longrightarrow>
      todos s1 = filter (\<lambda>t. completed t \<noteq> JBool isCompleted) (todos s)
      \<and> mset (todos s) = mset (todos s1)
           + mset (filter (\<lambda>t. completed t = JBool isCompleted) (todos s))
      \<and> snd (delete_all_todos s q)
           = (200, DeletedCount (length (todos s) - length (todos s1)) (Some isCompleted))
      \<and> length (todos s) - length (todos s1)
           = length (filter (\<lambda>t. completed t = JBool isCompleted) (todos s))
      \<and> nextId s1 = nextId s
      \<and> (\<forall>s' t m. create_todo clk s1 b = (s', 201, OneMsg t m) \<longrightarrow> todo_id t = nextId s))"
proof (intro conjI impI)
  assume n: "q_completed q = None"
  then show e: "delete_all_todos s q
      = (\<lparr>todos = [], nextId = 1\<rparr>, 200, DeletedCount (length (todos s)) None)"
    by (simp add: delete_all_todos_def)
  have "todo_id t = 1"
    if "create_todo clk \<lparr>todos = [], nextId = 1\<rparr> b = (s', 201, OneMsg t m)" for s' t m
    using create_allocates_nextId[OF that] by simp
  then show "\<forall>s' t m. create_todo clk (fst (delete_all_todos s q)) b = (s', 201, OneMsg t m)
      \<longrightarrow> todo_id t = 1"
    unfolding e by simp
next
  assume a: "q_completed q = Some c \<and> isCompleted = (c = JStr (js ''true''))
        \<and> s1 = fst (delete_all_todos s q)"
  have s1: "s1 = s\<lparr>todos := filter (\<lambda>t. completed t \<noteq> JBool isCompleted) (todos s)\<rparr>"
    using a by (simp add: delete_all_todos_def Let_def)
  have len: "length (filter (\<lambda>t. completed t = JBool isCompleted) (todos s)) + length (todos s1)
      = length (todos s)"
    using length_filter_complement[of "\<lambda>t. completed t = JBool isCompleted" "todos s"]
    by (simp add: s1)
  show "todos s1 = filter (\<lambda>t. completed t \<noteq> JBool isCompleted) (todos s)"
    by (simp add: s1)
  show "mset (todos s) = mset (todos s1)
      + mset (filter (\<lambda>t. completed t = JBool isCompleted) (todos s))"
    by (simp add: s1 add.commute)
  have "snd (delete_all_todos s q)
      = (200, DeletedCount (length (filter (\<lambda>t. completed t = JBool isCompleted) (todos s)))
           (Some isCompleted))"
    using a by (simp add: delete_all_todos_def Let_def)
  then show "snd (delete_all_todos s q)
      = (200, DeletedCount (length (todos s) - length (todos s1)) (Some isCompleted))"
    using len by simp
  show "length (todos s) - length (todos s1)
      = length (filter (\<lambda>t. completed t = JBool isCompleted) (todos s))"
    using len by simp
  show "nextId s1 = nextId s"
    by (simp add: s1)
  have "todo_id t = nextId s"
    if "create_todo clk s1 b = (s', 201, OneMsg t m)" for s' t m
    using create_allocates_nextId[OF that] by (simp add: s1)
  then show "\<forall>s' t m. create_todo clk s1 b = (s', 201, OneMsg t m) \<longrightarrow> todo_id t = nextId s"
    by blast
qed

theorem delete_all_effect_witness:
  "delete_all_todos (initial_store (clock_at 0)) no_query
     = (\<lparr>todos = [], nextId = 1\<rparr>, 200, DeletedCount 3 None)
   \<and> todos (fst (delete_all_todos (initial_store (clock_at 0))
        (no_query\<lparr>q_completed := Some (JStr (js ''true''))\<rparr>)))
     = [todos (initial_store (clock_at 0)) ! 0, todos (initial_store (clock_at 0)) ! 2]
   \<and> nextId (fst (delete_all_todos (initial_store (clock_at 0))
        (no_query\<lparr>q_completed := Some (JStr (js ''true''))\<rparr>))) = 4"
proof -
  let ?s = "initial_store (clock_at 0)"
  let ?q = "no_query\<lparr>q_completed := Some (JStr (js ''true''))\<rparr>"
  have n: "q_completed no_query = None"
    by (simp add: no_query_def)
  have l: "length (todos ?s) = 3" "nextId ?s = 4"
    by (simp_all add: initial_store_def initial_todos_def)
  have c: "q_completed ?q = Some (JStr (js ''true'')) \<and> True = (JStr (js ''true'') = JStr (js ''true''))
      \<and> fst (delete_all_todos ?s ?q) = fst (delete_all_todos ?s ?q)"
    by simp
  have f: "filter (\<lambda>t. completed t \<noteq> JBool True) (todos ?s) = [todos ?s ! 0, todos ?s ! 2]"
    by (simp add: initial_store_def initial_todos_def)
  note a = delete_all_effect [of no_query ?s "clock_at 0" None "JNull" True ?s,
      THEN conjunct1, THEN mp, OF n, THEN conjunct1]
  note b = delete_all_effect [of ?q ?s "clock_at 0" None "JStr (js ''true'')" True
      "fst (delete_all_todos ?s ?q)", THEN conjunct2, THEN mp, OF c]
  show ?thesis
    using a b[THEN conjunct1] b[THEN conjunct2, THEN conjunct2, THEN conjunct2, THEN conjunct2,
      THEN conjunct1]
    unfolding l f by (intro conjI)
qed

section \<open>Invalid priorities\<close>

text \<open>
  C6: when the priority passed to Create, or present in an Update patch, is a value
  that is none of \<open>low\<close>, \<open>medium\<close>, \<open>high\<close>, the store (the collection and the id
  counter) is left exactly as it was, whatever the rest of the request. The answer is
  InvalidInput (400) whenever the request is otherwise of the operation's type: for
  Create a text that is a string, or missing or falsy; for Update an id that exists and
  a text that is a string or absent.
\<close>

theorem invalid_priority_rejected:
  assumes p: "b_priority b = Some p" "priority_of (Some p) = None"
  shows "fst (create_todo clk s (Some b)) = s
   \<and> fst (update_todo clk s idp (Some b)) = s
   \<and> ((truthy_opt (b_text b) \<longrightarrow> (\<exists>t. b_text b = Some (JStr t)))
        \<longrightarrow> status (create_todo clk s (Some b)) = 400)
   \<and> (findIndex (has_id (parseInt idp)) (todos s) \<noteq> None
        \<and> (b_text b = None \<or> (\<exists>t. b_text b = Some (JStr t)))
        \<longrightarrow> status (update_todo clk s idp (Some b)) = 400)"
proof -
  have dp: "priority_of (default_priority (b_priority b)) = None"
    using p by (simp add: default_priority_def)
  have c_str: "fst (create_todo clk s (Some b)) = s \<and> status (create_todo clk s (Some b)) = 400"
    if "b_text b = Some (JStr t)" for t
    using create_todo_str[OF that, of clk s] dp by (simp add: status_def)
  have c_non: "fst (create_todo clk s (Some b)) = s" if "\<forall>t. b_text b \<noteq> Some (JStr t)"
    using create_todo_nonstr[OF that, of clk s] by simp
  have c_falsy: "status (create_todo clk s (Some b)) = 400"
    if "\<forall>t. b_text b \<noteq> Some (JStr t)" "\<not> truthy_opt (b_text b)"
    using create_todo_nonstr[OF that(1), of clk s] that(2) by (simp add: status_def)
  have 1: "fst (create_todo clk s (Some b)) = s"
    using c_str c_non by (cases "\<exists>t. b_text b = Some (JStr t)") auto
  have 3: "(truthy_opt (b_text b) \<longrightarrow> (\<exists>t. b_text b = Some (JStr t)))
        \<longrightarrow> status (create_todo clk s (Some b)) = 400"
    using c_str c_falsy by (cases "\<exists>t. b_text b = Some (JStr t)") auto
  have u: "fst (update_todo clk s idp (Some b)) = s
      \<and> ((b_text b = None \<or> (\<exists>t. b_text b = Some (JStr t)))
        \<longrightarrow> status (update_todo clk s idp (Some b)) = 400)"
    if i: "findIndex (has_id (parseInt idp)) (todos s) = Some i" for i
  proof (cases "b_text b")
    case None
    then show ?thesis
      by (simp add: update_todo_absent[OF i None] merge_todo_bad_priority[OF p] status_def)
  next
    case (Some v)
    show ?thesis
    proof (cases "\<exists>t. v = JStr t")
      case True
      then obtain t where "b_text b = Some (JStr t)" using Some by auto
      then show ?thesis
        by (simp add: update_todo_str[OF i] merge_todo_bad_priority[OF p] status_def)
    next
      case False
      then show ?thesis
        using update_todo_nonstr[OF i Some, of clk] Some by simp
    qed
  qed
  have 2: "fst (update_todo clk s idp (Some b)) = s"
    using u update_todo_missing[of idp s clk b]
    by (cases "findIndex (has_id (parseInt idp)) (todos s)") auto
  have 4: "findIndex (has_id (parseInt idp)) (todos s) \<noteq> None
        \<and> (b_text b = None \<or> (\<exists>t. b_text b = Some (JStr t)))
        \<longrightarrow> status (update_todo clk s idp (Some b)) = 400"
    using u by (cases "findIndex (has_id (parseInt idp)) (todos s)") auto
  show ?thesis by (intro conjI 1 2 3 4)
qed

theorem invalid_priority_rejected_witness:
  "create_todo (clock_at 0) (initial_store (clock_at 0))
      (Some \<lparr>b_text = Some (JStr (js ''Buy milk'')), b_completed = None,
             b_priority = Some (JStr (js ''urgent''))\<rparr>)
     = (initial_store (clock_at 0), 400, Failure MsgBadPriority)
   \<and> update_todo (clock_at 0) (initial_store (clock_at 0)) (js ''1'')
      (Some \<lparr>b_text = Some (JStr (js ''Buy milk'')), b_completed = None,
             b_priority = Some (JStr (js ''urgent''))\<rparr>)
     = (initial_store (clock_at 0), 400, Failure MsgBadPriority)
   \<and> fst (create_todo (clock_at 0) (initial_store (clock_at 0))
      (Some \<lparr>b_text = Some (JStr (js ''Buy milk'')), b_completed = None,
             b_priority = Some (JStr (js ''urgent''))\<rparr>)) = initial_store (clock_at 0)"
proof -
  let ?s = "initial_store (clock_at 0)"
  let ?b = "\<lparr>b_text = Some (JStr (js ''Buy milk'')), b_completed = None,
       b_priority = Some (JStr (js ''urgent''))\<rparr>"
  have p: "b_priority ?b = Some (JStr (js ''urgent''))"
      "priority_of (Some (JStr (js ''urgent''))) = None"
    by (simp_all add: js_def)
  have c: "create_todo (clock_at 0) ?s (Some ?b) = (?s, 400, Failure MsgBadPriority)"
    by (simp add: create_todo_def default_priority_def Let_def js_def trim_def is_space_def)
  have u: "update_todo (clock_at 0) ?s (js ''1'') (Some ?b) = (?s, 400, Failure MsgBadPriority)"
    by code_simp
  show ?thesis
    by (intro conjI c u
        invalid_priority_rejected [OF p, of "clock_at 0" ?s "js ''1''", THEN conjunct1])
qed

section \<open>The order of the listing\<close>

lemma compare_todos_le: "compare_todos a b \<le> 0 \<longleftrightarrow> ordered_before a b"
  by (auto simp: compare_todos_def ordered_before_def)

lemma ordered_before_total: "\<not> ordered_before a b \<Longrightarrow> ordered_before b a"
  by (auto simp: ordered_before_def)

lemma ordered_before_trans:
  "ordered_before a b \<Longrightarrow> ordered_before b c \<Longrightarrow> ordered_before a c"
  by (auto simp: ordered_before_def)

lemma mset_insert_by: "mset (insert_by cmp x xs) = add_mset x (mset xs)"
  by (induction xs) simp_all

lemma mset_js_sort: "mset (js_sort cmp xs) = mset xs"
  by (induction xs) (simp_all add: mset_insert_by)

lemma set_insert_by: "set (insert_by cmp x xs) = insert x (set xs)"
  by (induction xs) auto

lemma sorted_insert_by:
  "sorted_wrt ordered_before xs \<Longrightarrow> sorted_wrt ordered_before (insert_by compare_todos x xs)"
proof (induction xs)
  case Nil
  then show ?case by simp
next
  case (Cons y ys)
  show ?case
  proof (cases "compare_todos x y \<le> 0")
    case True
    then have xy: "ordered_before x y" by (simp add: compare_todos_le)
    have "\<forall>z\<in>set ys. ordered_before x z"
      using Cons.prems xy ordered_before_trans by auto
    with True xy Cons.prems show ?thesis by simp
  next
    case False
    then have yx: "ordered_before y x"
      using ordered_before_total by (simp add: compare_todos_le)
    with False Cons show ?thesis
      by (auto simp: set_insert_by)
  qed
qed

lemma sorted_js_sort: "sorted_wrt ordered_before (js_sort compare_todos xs)"
  by (induction xs) (simp_all add: sorted_insert_by)

lemma length_js_sort: "length (js_sort cmp xs) = length xs"
  using mset_js_sort[of cmp xs] by (metis size_mset)

text \<open>
  The listing is the stable sort by \<open>sort_key_of\<close>: records of equal priority and
  \<open>createdAt\<close> keep the order they have in the store, and no other list is a sorted,
  stable rearrangement of the same records.
\<close>

lemma compare_todos_key: "compare_todos a b \<le> 0 \<longleftrightarrow> sort_key_of a \<le> sort_key_of b"
  by (auto simp: compare_todos_def sort_key_of_def less_eq_prod_def)

lemma ordered_before_key: "ordered_before a b \<longleftrightarrow> sort_key_of a \<le> sort_key_of b"
  by (auto simp: ordered_before_def sort_key_of_def less_eq_prod_def)

lemma insert_by_insort_key: "insert_by compare_todos x ys = insort_key sort_key_of x ys"
  by (induction ys) (simp_all add: compare_todos_key)

lemma js_sort_sort_key: "js_sort compare_todos xs = sort_key sort_key_of xs"
  by (induction xs) (simp_all add: insert_by_insort_key)

lemma js_sort_stable:
  "filter (\<lambda>x. sort_key_of x = k) (js_sort compare_todos xs)
     = filter (\<lambda>x. sort_key_of x = k) xs"
  unfolding js_sort_sort_key by (rule sort_key_stable)

lemma js_sort_unique:
  assumes "mset ys = mset xs"
    and "sorted_wrt ordered_before ys"
    and "\<And>k. k \<in> set ys \<Longrightarrow>
           filter (\<lambda>x. sort_key_of k = sort_key_of x) ys
             = filter (\<lambda>x. sort_key_of k = sort_key_of x) xs"
  shows "js_sort compare_todos xs = ys"
proof -
  have "ordered_before = (\<lambda>x y. sort_key_of x \<le> sort_key_of y)"
    by (intro ext) (rule ordered_before_key)
  then have "sorted (map sort_key_of ys)"
    using assms(2) by (simp add: sorted_map)
  with assms(1,3) show ?thesis
    unfolding js_sort_sort_key by (intro properties_for_sort_key) auto
qed

lemma search_todos_total:
  "search = None \<or> (\<exists>p. search = Some (JStr p)) \<Longrightarrow> search_todos rt search xs \<noteq> None"
  by (auto simp: search_todos_def)

text \<open>
  C7: whenever List answers with a list, that list is a rearrangement of the records
  that passed the three filters, its count is their number, and it is sorted: each
  record is followed only by records of lower priority weight (high 3, medium 2,
  low 1), or of the same priority and not newer \<open>createdAt\<close>. It answers so for every
  collection and every filter whose search value is absent or a string. For records
  of priorities low, high, high with distinct \<open>createdAt\<close>, the two of high priority
  come first, the newer one first, and the one of low priority last.
\<close>

theorem list_sorted_by_priority_then_newest:
  "(list_todos rt s q = (s', st, TodoList data n tot) \<longrightarrow>
      sorted_wrt ordered_before data
      \<and> search_todos rt (q_search q)
           (filter_priority (q_priority q) (filter_completed (q_completed q) (todos s)))
         \<noteq> None
      \<and> mset data = mset (the (search_todos rt (q_search q)
           (filter_priority (q_priority q) (filter_completed (q_completed q) (todos s)))))
      \<and> n = length data \<and> tot = length (todos s) \<and> s' = s \<and> st = 200)
   \<and> (q_search q = None \<or> (\<exists>p. q_search q = Some (JStr p)) \<longrightarrow>
        (\<exists>data. list_todos rt s q = (s, 200, TodoList data (length data) (length (todos s)))))
   \<and> (todos s = [a, b, c] \<and> priority a = Low \<and> priority b = High \<and> priority c = High
        \<and> createdAt b \<noteq> createdAt c \<longrightarrow>
        list_todos rt s no_query
          = (s, 200, TodoList (if createdAt c < createdAt b then [b, c, a] else [c, b, a]) 3 3))"
proof (intro conjI impI)
  assume l: "list_todos rt s q = (s', st, TodoList data n tot)"
  define r where "r = search_todos rt (q_search q)
           (filter_priority (q_priority q) (filter_completed (q_completed q) (todos s)))"
  from l obtain fs where fs: "r = Some fs"
    by (cases r) (simp_all add: list_todos_def r_def[symmetric])
  from l have d: "data = js_sort compare_todos fs" "n = length data" "tot = length (todos s)"
      "s' = s" "st = 200"
    by (auto simp: list_todos_def r_def[symmetric] fs Let_def)
  show "sorted_wrt ordered_before data" by (simp add: d sorted_js_sort)
  show "search_todos rt (q_search q)
           (filter_priority (q_priority q) (filter_completed (q_completed q) (todos s)))
         \<noteq> None"
    using fs by (simp add: r_def)
  show "mset data = mset (the (search_todos rt (q_search q)
           (filter_priority (q_priority q) (filter_completed (q_completed q) (todos s)))))"
    using fs by (simp add: r_def[symmetric] d mset_js_sort)
  show "n = length data" "tot = length (todos s)" "s' = s" "st = 200"
    by (rule d)+
next
  assume "q_search q = None \<or> (\<exists>p. q_search q = Some (JStr p))"
  from search_todos_total[OF this]
  obtain fs where "search_todos rt (q_search q)
      (filter_priority (q_priority q) (filter_completed (q_completed q) (todos s))) = Some fs"
    by blast
  then show "\<exists>data. list_todos rt s q = (s, 200, TodoList data (length data) (length (todos s)))"
    by (simp add: list_todos_def Let_def)
next
  assume "todos s = [a, b, c] \<and> priority a = Low \<and> priority b = High \<and> priority c = High
        \<and> createdAt b \<noteq> createdAt c"
  then show "list_todos rt s no_query
          = (s, 200, TodoList (if createdAt c < createdAt b then [b, c, a] else [c, b, a]) 3 3)"
    by (simp add: list_todos_def no_query_def search_todos_def filter_priority_def
          filter_completed_def compare_todos_def)
qed

theorem list_sorted_by_priority_then_newest_witness:
  "list_todos ascii_runtime
      \<lparr>todos = [example_todo 1 Low 10, example_todo 2 High 20, example_todo 3 High 30],
       nextId = 4\<rparr> no_query
     = (\<lparr>todos = [example_todo 1 Low 10, example_todo 2 High 20, example_todo 3 High 30],
         nextId = 4\<rparr>,
        200, TodoList [example_todo 3 High 30, example_todo 2 High 20, example_todo 1 Low 10] 3 3)
   \<and> sorted_wrt ordered_before
        [example_todo 3 High 30, example_todo 2 High 20, example_todo 1 Low 10]"
proof -
  let ?s = "\<lparr>todos = [example_todo 1 Low 10, example_todo 2 High 20, example_todo 3 High 30],
       nextId = 4\<rparr>"
  have h: "todos ?s = [example_todo 1 Low 10, example_todo 2 High 20, example_todo 3 High 30]
      \<and> priority (example_todo 1 Low 10) = Low \<and> priority (example_todo 2 High 20) = High
      \<and> priority (example_todo 3 High 30) = High
      \<and> createdAt (example_todo 2 High 20) \<noteq> createdAt (example_todo 3 High 30)"
    by (simp add: example_todo_def)
  have c: "(if createdAt (example_todo 3 High 30) < createdAt (example_todo 2 High 20)
            then [example_todo 2 High 20, example_todo 3 High 30, example_todo 1 Low 10]
            else [example_todo 3 High 30, example_todo 2 High 20, example_todo 1 Low 10])
      = [example_todo 3 High 30, example_todo 2 High 20, example_todo 1 Low 10]"
    by (simp add: example_todo_def)
  note l = list_sorted_by_priority_then_newest [of ascii_runtime ?s no_query ?s 200
      "[example_todo 3 High 30, example_todo 2 High 20, example_todo 1 Low 10]" 3 3
      "example_todo 1 Low 10" "example_todo 2 High 20" "example_todo 3 High 30",
      THEN conjunct2, THEN conjunct2, THEN mp, OF h, unfolded c]
  note o = list_sorted_by_priority_then_newest [of ascii_runtime ?s no_query ?s 200
      "[example_todo 3 High 30, example_todo 2 High 20, example_todo 1 Low 10]" 3 3
      "example_todo 1 Low 10" "example_todo 2 High 20" "example_todo 3 High 30",
      THEN conjunct1, THEN mp, OF l, THEN conjunct1]
  show ?thesis using l o by (rule conjI)
qed

section \<open>The merge of Update\<close>

lemma findIndex_Some:
  "findIndex P xs = Some i \<Longrightarrow> i < length xs \<and> P (xs ! i)"
proof (induction xs arbitrary: i)
  case Nil
  then show ?case by simp
next
  case (Cons x xs)
  show ?case
  proof (cases "P x")
    case True
    with Cons.prems show ?thesis by simp
  next
    case False
    with Cons.prems obtain j where j: "findIndex P xs = Some j" "i = Suc j"
      by auto
    with Cons.IH[OF j(1)] show ?thesis by simp
  qed
qed

lemma merge_todo_cases:
  "merge_todo clk s i tr b = (s, 400, Failure MsgBadPriority)
   \<or> (b_priority b = None \<or> priority_of (b_priority b) \<noteq> None)"
  by (auto simp: merge_todo_def)

lemma update_todo_ok:
  assumes i: "findIndex (has_id (parseInt idp)) (todos s) = Some i"
    and ok: "status (update_todo clk s idp (Some b)) = 200"
  shows "(b_text b = None \<or> (\<exists>t. b_text b = Some (JStr t)))
    \<and> (b_priority b = None \<or> priority_of (b_priority b) \<noteq> None)
    \<and> update_todo clk s idp (Some b)
        = merge_todo clk s i (case b_text b of Some (JStr t) \<Rightarrow> Some (trim t) | _ \<Rightarrow> None) b"
proof (cases "b_text b")
  case None
  have "update_todo clk s idp (Some b) = merge_todo clk s i None b"
    by (rule update_todo_absent[OF i None])
  with ok merge_todo_cases[of clk s i None b] None show ?thesis
    by (auto simp: status_def)
next
  case (Some v)
  show ?thesis
  proof (cases "\<exists>t. v = JStr t")
    case True
    then obtain t where t: "b_text b = Some (JStr t)" using Some by auto
    from ok have "update_todo clk s idp (Some b) = merge_todo clk s i (Some (trim t)) b"
      unfolding update_todo_str[OF i t] by (auto simp: status_def split: if_splits)
    with ok merge_todo_cases[of clk s i "Some (trim t)" b] t show ?thesis
      by (auto simp: status_def)
  next
    case False
    then have "update_todo clk s idp (Some b) = (s, 500, Failure MsgUpdateError)"
      using update_todo_nonstr[OF i Some] by simp
    with ok show ?thesis by (simp add: status_def)
  qed
qed

lemma get_todo_fst: "fst (get_todo s idp) = s"
  by (simp add: get_todo_def split: option.split)

lemma list_todos_fst: "fst (list_todos rt s q) = s"
  by (simp add: list_todos_def Let_def split: option.split)

lemma todo_stats_fst: "fst (todo_stats rt s) = s"
  by (simp add: todo_stats_def Let_def)

lemma create_todo_stamp_body:
  assumes "t \<in> set (todos (fst (create_todo clk s (Some b))))"
  shows "t \<in> set (todos s) \<or> updatedAt t = clk 1"
proof (cases "\<exists>x. b_text b = Some (JStr x)")
  case True
  then obtain x where x: "b_text b = Some (JStr x)" by blast
  from assms show ?thesis
    unfolding create_todo_str[OF x]
    by (cases "priority_of (default_priority (b_priority b))") (auto split: if_splits)
next
  case False
  then have "\<forall>t. b_text b \<noteq> Some (JStr t)" by simp
  with assms show ?thesis
    by (simp add: create_todo_nonstr split: if_splits)
qed

lemma create_todo_stamp:
  assumes "t \<in> set (todos (fst (create_todo clk s req_body)))"
  shows "t \<in> set (todos s) \<or> updatedAt t = clk 1"
proof (cases req_body)
  case None
  with assms show ?thesis by (simp add: create_todo_no_body)
next
  case (Some b)
  from assms[unfolded Some] show ?thesis by (rule create_todo_stamp_body)
qed

lemma merge_todo_stamp:
  assumes "t \<in> set (todos (fst (merge_todo clk s i tr b)))"
  shows "t \<in> set (todos s) \<or> updatedAt t = clk 0"
proof (cases "b_priority b = None \<or> priority_of (b_priority b) \<noteq> None")
  case True
  from assms have "t \<in> set ((todos s)[i := (todos s ! i)
              \<lparr>todo_text := (case tr of Some t \<Rightarrow> t | None \<Rightarrow> todo_text (todos s ! i)),
               completed := (case b_completed b of
                               Some c \<Rightarrow> c | None \<Rightarrow> completed (todos s ! i)),
               priority := (case priority_of (b_priority b) of
                              Some p \<Rightarrow> p | None \<Rightarrow> priority (todos s ! i)),
               updatedAt := clk 0\<rparr>])"
    by (simp add: merge_todo_ok[OF True])
  then show ?thesis
    using set_update_subset_insert[of "todos s" i] by fastforce
next
  case False
  with assms show ?thesis
    using merge_todo_cases[of clk s i tr b] by auto
qed

lemma update_todo_stamp_body:
  assumes "t \<in> set (todos (fst (update_todo clk s idp (Some b))))"
  shows "t \<in> set (todos s) \<or> updatedAt t = clk 0"
proof (cases "findIndex (has_id (parseInt idp)) (todos s)")
  case None
  with assms show ?thesis by (simp add: update_todo_missing)
next
  case i: (Some i)
  show ?thesis
  proof (cases "b_text b")
    case None
    with assms show ?thesis
      by (simp add: update_todo_absent[OF i] merge_todo_stamp)
  next
    case (Some v)
    show ?thesis
    proof (cases "\<exists>x. v = JStr x")
      case True
      then obtain x where "b_text b = Some (JStr x)" using Some by auto
      with assms show ?thesis
        by (auto simp: update_todo_str[OF i] split: if_splits dest: merge_todo_stamp)
    next
      case False
      with assms show ?thesis
        using update_todo_nonstr[OF i Some, of clk] by simp
    qed
  qed
qed

lemma update_todo_stamp:
  assumes "t \<in> set (todos (fst (update_todo clk s idp req_body)))"
  shows "t \<in> set (todos s) \<or> updatedAt t = clk 0"
proof (cases req_body)
  case None
  with assms show ?thesis by (simp add: update_todo_no_body)
next
  case (Some b)
  from assms[unfolded Some] show ?thesis by (rule update_todo_stamp_body)
qed

lemma delete_todo_stamp:
  "t \<in> set (todos (fst (delete_todo s idp))) \<Longrightarrow> t \<in> set (todos s)"
  by (auto simp: delete_todo_def Let_def split: option.splits
           dest: in_set_takeD in_set_dropD)

lemma delete_all_todos_stamp:
  "t \<in> set (todos (fst (delete_all_todos s q))) \<Longrightarrow> t \<in> set (todos s)"
  by (cases "q_completed q") (auto simp: delete_all_todos_def Let_def)

lemma handle_stamp:
  assumes "t \<in> set (todos (fst (handle rt s r)))"
  shows "t \<in> set (todos s) \<or> updatedAt t = rq_clock r 0 \<or> updatedAt t = rq_clock r 1"
proof (cases "dispatch routes (rq_method r) (rq_path r)")
  case None
  with assms show ?thesis by (simp add: handle_def)
next
  case (Some a)
  obtain ep params where a: "a = (ep, params)" by (cases a)
  note d = Some[unfolded a]
  from assms show ?thesis
    by (cases ep)
       (auto simp: handle_def d get_todo_fst list_todos_fst todo_stats_fst
             dest: create_todo_stamp update_todo_stamp delete_todo_stamp delete_all_todos_stamp)
qed

lemma handle_stamps_le:
  assumes "stamps_le T s" "T \<le> rq_clock r 0" "rq_clock r 0 \<le> rq_clock r 1"
  shows "stamps_le (rq_clock r 1) (fst (handle rt s r))"
  unfolding stamps_le_def
proof
  fix t assume "t \<in> set (todos (fst (handle rt s r)))"
  from handle_stamp[OF this] assms show "updatedAt t \<le> rq_clock r 1"
    by (auto simp: stamps_le_def)
qed

lemma run_stamps_le:
  "stamps_le T s \<Longrightarrow> readings_ordered T rs \<Longrightarrow> stamps_le (last_reading T rs) (run rt s rs)"
proof (induction rs arbitrary: T s)
  case Nil
  then show ?case by simp
next
  case (Cons r rs)
  from Cons.prems(2) have o: "T \<le> rq_clock r 0" "rq_clock r 0 \<le> rq_clock r 1"
      "readings_ordered (rq_clock r 1) rs"
    by simp_all
  have "stamps_le (last_reading (rq_clock r 1) rs) (run rt (fst (handle rt s r)) rs)"
    by (rule Cons.IH[OF handle_stamps_le[OF Cons.prems(1) o(1) o(2)] o(3)])
  then show ?case by simp
qed

lemma initial_stamps_le:
  "clk 1 \<le> clk 3 \<Longrightarrow> clk 3 \<le> clk 5 \<Longrightarrow> stamps_le (clk 5) (initial_store clk)"
  by (simp add: stamps_le_def initial_store_def initial_todos_def)

lemma stamps_before_clock:
  assumes "s = run rt (initial_store clk0) rs" "clk0 1 \<le> clk0 3" "clk0 3 \<le> clk0 5"
    "readings_ordered (clk0 5) rs" "last_reading (clk0 5) rs \<le> now" "i < length (todos s)"
  shows "updatedAt (todos s ! i) \<le> now"
proof -
  have "stamps_le (last_reading (clk0 5) rs) s"
    unfolding assms(1) by (rule run_stamps_le[OF initial_stamps_le[OF assms(2,3)] assms(4)])
  moreover have "todos s ! i \<in> set (todos s)"
    using assms(6) by (rule nth_mem)
  ultimately have "updatedAt (todos s ! i) \<le> last_reading (clk0 5) rs"
    unfolding stamps_le_def by (rule bspec)
  with assms(5) show ?thesis by simp
qed

text \<open>
  C8: for an existing record, an Update whose patch is only \<open>completed: true\<close>
  succeeds, replaces the record in its place, leaves its text, priority, id and
  \<open>createdAt\<close> as they were, sets \<open>completed\<close> to \<open>true\<close> and sets \<open>updatedAt\<close> to the
  clock's reading, which is not below the prior \<open>updatedAt\<close> unless the clock has gone
  back since. In general a successful Update replaces the record in its place by one
  that has the same id and \<open>createdAt\<close>, takes the (trimmed) text, the \<open>completed\<close>
  value and the priority from the patch where the patch has them, and keeps the prior
  value of each field the patch does not have. In a store reached from process start
  with a clock that never went back, no stored \<open>updatedAt\<close> is after a later reading
  of the clock, so with such a clock the new \<open>updatedAt\<close> is not below the prior one.
\<close>

theorem update_merges_patch:
  assumes i: "findIndex (has_id (parseInt idp)) (todos s) = Some i"
  shows "(b = \<lparr>b_text = None, b_completed = Some (JBool True), b_priority = None\<rparr> \<longrightarrow>
      (\<exists>r. update_todo clk s idp (Some b) = (s\<lparr>todos := (todos s)[i := r]\<rparr>, 200, OneMsg r MsgUpdated)
         \<and> todo_text r = todo_text (todos s ! i)
         \<and> priority r = priority (todos s ! i)
         \<and> todo_id r = todo_id (todos s ! i)
         \<and> createdAt r = createdAt (todos s ! i)
         \<and> completed r = JBool True
         \<and> updatedAt r = clk 0
         \<and> (updatedAt (todos s ! i) \<le> clk 0 \<longrightarrow> updatedAt (todos s ! i) \<le> updatedAt r)))
   \<and> (status (update_todo clk s idp (Some b)) = 200 \<longrightarrow>
      (\<exists>r. update_todo clk s idp (Some b) = (s\<lparr>todos := (todos s)[i := r]\<rparr>, 200, OneMsg r MsgUpdated)
         \<and> todo_id r = todo_id (todos s ! i)
         \<and> createdAt r = createdAt (todos s ! i)
         \<and> updatedAt r = clk 0
         \<and> todo_text r = (case b_text b of Some (JStr t) \<Rightarrow> trim t | _ \<Rightarrow> todo_text (todos s ! i))
         \<and> completed r = (case b_completed b of Some c \<Rightarrow> c | None \<Rightarrow> completed (todos s ! i))
         \<and> priority r = (case priority_of (b_priority b) of
                           Some p \<Rightarrow> p | None \<Rightarrow> priority (todos s ! i))))
   \<and> i < length (todos s) \<and> parseInt idp = Integer (todo_id (todos s ! i))
   \<and> (s = run rt (initial_store clk0) rs \<and> clk0 1 \<le> clk0 3 \<and> clk0 3 \<le> clk0 5
        \<and> readings_ordered (clk0 5) rs \<and> last_reading (clk0 5) rs \<le> clk 0 \<longrightarrow>
        updatedAt (todos s ! i) \<le> clk 0)"
proof (intro conjI impI)
  assume "s = run rt (initial_store clk0) rs \<and> clk0 1 \<le> clk0 3 \<and> clk0 3 \<le> clk0 5
        \<and> readings_ordered (clk0 5) rs \<and> last_reading (clk0 5) rs \<le> clk 0"
  then show "updatedAt (todos s ! i) \<le> clk 0"
    using stamps_before_clock[of s rt clk0 rs "clk 0" i] findIndex_Some[OF i] by blast
next
  assume b: "b = \<lparr>b_text = None, b_completed = Some (JBool True), b_priority = None\<rparr>"
  have "b_text b = None" "b_priority b = None \<or> priority_of (b_priority b) \<noteq> None"
    by (simp_all add: b)
  then have "update_todo clk s idp (Some b) =
      (s\<lparr>todos := (todos s)[i := (todos s ! i)\<lparr>completed := JBool True, updatedAt := clk 0\<rparr>]\<rparr>,
       200, OneMsg ((todos s ! i)\<lparr>completed := JBool True, updatedAt := clk 0\<rparr>) MsgUpdated)"
    by (simp add: update_todo_absent[OF i] merge_todo_ok) (simp add: b)
  then show "\<exists>r. update_todo clk s idp (Some b)
         = (s\<lparr>todos := (todos s)[i := r]\<rparr>, 200, OneMsg r MsgUpdated)
         \<and> todo_text r = todo_text (todos s ! i)
         \<and> priority r = priority (todos s ! i)
         \<and> todo_id r = todo_id (todos s ! i)
         \<and> createdAt r = createdAt (todos s ! i)
         \<and> completed r = JBool True
         \<and> updatedAt r = clk 0
         \<and> (updatedAt (todos s ! i) \<le> clk 0 \<longrightarrow> updatedAt (todos s ! i) \<le> updatedAt r)"
    by simp
next
  assume ok: "status (update_todo clk s idp (Some b)) = 200"
  note u = update_todo_ok[OF i ok]
  have tx: "(case (case b_text b of Some (JStr t) \<Rightarrow> Some (trim t) | _ \<Rightarrow> None) of
              Some t \<Rightarrow> t | None \<Rightarrow> todo_text (todos s ! i))
      = (case b_text b of Some (JStr t) \<Rightarrow> trim t | _ \<Rightarrow> todo_text (todos s ! i))"
    using u[THEN conjunct1] by auto
  show "\<exists>r. update_todo clk s idp (Some b)
         = (s\<lparr>todos := (todos s)[i := r]\<rparr>, 200, OneMsg r MsgUpdated)
         \<and> todo_id r = todo_id (todos s ! i)
         \<and> createdAt r = createdAt (todos s ! i)
         \<and> updatedAt r = clk 0
         \<and> todo_text r = (case b_text b of Some (JStr t) \<Rightarrow> trim t | _ \<Rightarrow> todo_text (todos s ! i))
         \<and> completed r = (case b_completed b of Some c \<Rightarrow> c | None \<Rightarrow> completed (todos s ! i))
         \<and> priority r = (case priority_of (b_priority b) of
                           Some p \<Rightarrow> p | None \<Rightarrow> priority (todos s ! i))"
    unfolding u[THEN conjunct2, THEN conjunct2]
      merge_todo_ok[OF u[THEN conjunct2, THEN conjunct1]] tx
    by simp
next
  show "i < length (todos s)" using findIndex_Some[OF i] by simp
  show "parseInt idp = Integer (todo_id (todos s ! i))"
    using findIndex_Some[OF i] by (simp add: has_id_def)
qed

theorem update_merges_patch_witness:
  "\<exists>r. update_todo (clock_at 5) (initial_store (clock_at 0)) (js ''1'')
          (Some \<lparr>b_text = None, b_completed = Some (JBool True), b_priority = None\<rparr>)
        = ((initial_store (clock_at 0))
             \<lparr>todos := (todos (initial_store (clock_at 0)))[0 := r]\<rparr>, 200, OneMsg r MsgUpdated)
      \<and> todo_text r = todo_text (todos (initial_store (clock_at 0)) ! 0)
      \<and> priority r = High
      \<and> todo_id r = 1
      \<and> createdAt r = 0
      \<and> completed r = JBool True
      \<and> updatedAt r = 5
      \<and> updatedAt (todos (initial_store (clock_at 0)) ! 0) \<le> updatedAt r"
proof -
  let ?s = "initial_store (clock_at 0)"
  let ?b = "\<lparr>b_text = None, b_completed = Some (JBool True), b_priority = None\<rparr>"
  have i: "findIndex (has_id (parseInt (js ''1''))) (todos ?s) = Some 0"
    by code_simp
  have v: "priority (todos ?s ! 0) = High" "todo_id (todos ?s ! 0) = 1"
      "createdAt (todos ?s ! 0) = 0" "clock_at 5 0 = 5"
    by (simp_all add: initial_store_def initial_todos_def clock_at_def)
  have h: "?s = run ascii_runtime (initial_store (clock_at 0)) []
      \<and> clock_at 0 1 \<le> clock_at 0 3 \<and> clock_at 0 3 \<le> clock_at 0 5
      \<and> readings_ordered (clock_at 0 5) [] \<and> last_reading (clock_at 0 5) [] \<le> clock_at 5 0"
    by (simp add: clock_at_def)
  note th = update_merges_patch [OF i, where b = ?b and clk = "clock_at 5"
      and rt = ascii_runtime and ?clk0.0 = "clock_at 0" and rs = "[]"]
  note le = th [THEN conjunct2, THEN conjunct2, THEN conjunct2, THEN conjunct2, THEN mp, OF h]
  from th [THEN conjunct1, THEN mp, OF refl] le
  show ?thesis unfolding v by auto
qed

section \<open>Uniqueness of ids\<close>

lemma keeps_ids_refl: "keeps_ids s s"
  by (simp add: keeps_ids_def)

lemma created_id_Failure: "created_id (st, Failure m) = None"
  by simp

text \<open>The effect of each handler on the ids and the counter.\<close>

lemma get_todo_keeps:
  "keeps_ids s (fst (get_todo s idp)) \<and> created_id (snd (get_todo s idp)) = None"
  by (simp add: get_todo_def keeps_ids_refl split: option.split)

lemma list_todos_keeps:
  "keeps_ids s (fst (list_todos rt s q)) \<and> created_id (snd (list_todos rt s q)) = None"
  by (simp add: list_todos_def keeps_ids_refl Let_def split: option.split)

lemma todo_stats_keeps:
  "keeps_ids s (fst (todo_stats rt s)) \<and> created_id (snd (todo_stats rt s)) = None"
  by (simp add: todo_stats_def keeps_ids_refl Let_def)

lemma create_todo_effect_body:
  "(fst (create_todo clk s (Some b)) = s \<and> created_id (snd (create_todo clk s (Some b))) = None)
   \<or> (\<exists>t. fst (create_todo clk s (Some b)) = s\<lparr>todos := todos s @ [t], nextId := nextId s + 1\<rparr>
          \<and> todo_id t = nextId s
          \<and> created_id (snd (create_todo clk s (Some b))) = Some (nextId s))"
proof (cases "\<exists>x. b_text b = Some (JStr x)")
  case True
  then obtain x where x: "b_text b = Some (JStr x)" by blast
  show ?thesis
    unfolding create_todo_str[OF x]
    by (cases "priority_of (default_priority (b_priority b))") auto
next
  case False
  then have "\<forall>t. b_text b \<noteq> Some (JStr t)" by simp
  then show ?thesis
    by (simp add: create_todo_nonstr)
qed

lemma create_todo_effect:
  "(fst (create_todo clk s req_body) = s \<and> created_id (snd (create_todo clk s req_body)) = None)
   \<or> (\<exists>t. fst (create_todo clk s req_body) = s\<lparr>todos := todos s @ [t], nextId := nextId s + 1\<rparr>
          \<and> todo_id t = nextId s
          \<and> created_id (snd (create_todo clk s req_body)) = Some (nextId s))"
proof (cases req_body)
  case None
  then show ?thesis by (simp add: create_todo_no_body)
next
  case (Some b)
  show ?thesis unfolding Some by (rule create_todo_effect_body)
qed

lemma merge_todo_keeps:
  assumes "i < length (todos s)"
  shows "keeps_ids s (fst (merge_todo clk s i tr b))
    \<and> created_id (snd (merge_todo clk s i tr b)) = None"
proof (cases "b_priority b = None \<or> priority_of (b_priority b) \<noteq> None")
  case True
  have "map todo_id ((todos s)[i := r]) = map todo_id (todos s)"
    if "todo_id r = todo_id (todos s ! i)" for r :: todo
    using that assms by (simp add: map_update list_update_same_conv)
  then show ?thesis
    by (simp add: merge_todo_ok[OF True] keeps_ids_def)
next
  case False
  then show ?thesis
    using merge_todo_cases[of clk s i tr b] by (auto simp: keeps_ids_refl)
qed

lemma update_todo_keeps_body:
  "keeps_ids s (fst (update_todo clk s idp (Some b)))
   \<and> created_id (snd (update_todo clk s idp (Some b))) = None"
proof (cases "findIndex (has_id (parseInt idp)) (todos s)")
  case None
  then show ?thesis by (simp add: update_todo_missing keeps_ids_refl)
next
  case (Some i)
  then have i: "i < length (todos s)" using findIndex_Some by blast
  show ?thesis
  proof (cases "b_text b")
    case None
    then show ?thesis
      by (simp add: update_todo_absent[OF Some] merge_todo_keeps[OF i])
  next
    case (Some v)
    show ?thesis
    proof (cases "\<exists>t. v = JStr t")
      case True
      then obtain t where "b_text b = Some (JStr t)" using Some by auto
      then show ?thesis
        by (simp add: update_todo_str[OF \<open>findIndex (has_id (parseInt idp)) (todos s) = Some i\<close>]
              merge_todo_keeps[OF i] keeps_ids_refl)
    next
      case False
      then show ?thesis
        using update_todo_nonstr[OF \<open>findIndex (has_id (parseInt idp)) (todos s) = Some i\<close> Some,
            of clk]
        by (simp add: keeps_ids_refl)
    qed
  qed
qed

lemma update_todo_keeps:
  "keeps_ids s (fst (update_todo clk s idp req_body))
   \<and> created_id (snd (update_todo clk s idp req_body)) = None"
proof (cases req_body)
  case None
  then show ?thesis by (simp add: update_todo_no_body keeps_ids_refl)
next
  case (Some b)
  show ?thesis unfolding Some by (rule update_todo_keeps_body)
qed

lemma distinct_map_remove_nth:
  "distinct (map f xs) \<Longrightarrow> distinct (map f (take i xs @ drop (Suc i) xs))"
proof (induction xs arbitrary: i)
  case Nil
  then show ?case by simp
next
  case (Cons x xs)
  show ?case
  proof (cases i)
    case 0
    with Cons.prems show ?thesis by simp
  next
    case (Suc j)
    have "set (take j xs) \<subseteq> set xs" "set (drop (Suc j) xs) \<subseteq> set xs"
      by (simp_all add: set_take_subset set_drop_subset)
    with Cons.prems Cons.IH[of j] Suc show ?thesis by auto
  qed
qed

lemma delete_todo_keeps:
  "keeps_ids s (fst (delete_todo s idp)) \<and> created_id (snd (delete_todo s idp)) = None"
proof (cases "findIndex (has_id (parseInt idp)) (todos s)")
  case None
  then show ?thesis by (simp add: delete_todo_def keeps_ids_refl)
next
  case (Some i)
  have "set (take i (todos s)) \<subseteq> set (todos s)" "set (drop (Suc i) (todos s)) \<subseteq> set (todos s)"
    by (simp_all add: set_take_subset set_drop_subset)
  then show ?thesis
    using distinct_map_remove_nth[of todo_id "todos s" i]
    by (auto simp: delete_todo_def Some keeps_ids_def Let_def)
qed

lemma delete_all_todos_effect:
  "(q_completed q \<noteq> None \<and> keeps_ids s (fst (delete_all_todos s q))
      \<and> created_id (snd (delete_all_todos s q)) = None)
   \<or> (q_completed q = None \<and> todos (fst (delete_all_todos s q)) = []
      \<and> nextId (fst (delete_all_todos s q)) = 1
      \<and> created_id (snd (delete_all_todos s q)) = None)"
  by (cases "q_completed q")
     (auto simp: delete_all_todos_def keeps_ids_def Let_def distinct_map_filter)

lemma handle_effect:
  "(keeps_ids s (fst (handle rt s r)) \<and> created_id (snd (handle rt s r)) = None)
   \<or> (is_reset r \<and> todos (fst (handle rt s r)) = [] \<and> nextId (fst (handle rt s r)) = 1
        \<and> created_id (snd (handle rt s r)) = None)
   \<or> (\<exists>t. fst (handle rt s r) = s\<lparr>todos := todos s @ [t], nextId := nextId s + 1\<rparr>
        \<and> todo_id t = nextId s
        \<and> created_id (snd (handle rt s r)) = Some (nextId s))"
proof (cases "dispatch routes (rq_method r) (rq_path r)")
  case None
  then show ?thesis by (simp add: handle_def keeps_ids_refl)
next
  case (Some a)
  obtain ep params where a: "a = (ep, params)" by (cases a)
  note d = Some[unfolded a]
  show ?thesis
  proof (cases ep)
    case EpRoot
    then show ?thesis by (simp add: handle_def d keeps_ids_refl)
  next
    case EpHealth
    then show ?thesis by (simp add: handle_def d keeps_ids_refl)
  next
    case EpList
    then show ?thesis by (simp add: handle_def d list_todos_keeps)
  next
    case EpGet
    then show ?thesis by (simp add: handle_def d get_todo_keeps)
  next
    case EpCreate
    then have "handle rt s r = create_todo (rq_clock r) s (rq_body r)"
      by (simp add: handle_def d)
    then show ?thesis
      using create_todo_effect[of "rq_clock r" s "rq_body r"] keeps_ids_refl[of s] by auto
  next
    case EpUpdate
    then show ?thesis by (simp add: handle_def d update_todo_keeps)
  next
    case EpDelete
    then show ?thesis by (simp add: handle_def d delete_todo_keeps)
  next
    case EpDeleteAll
    then have h: "handle rt s r = delete_all_todos s (rq_query r)"
      by (simp add: handle_def d)
    show ?thesis
    proof (cases "q_completed (rq_query r)")
      case None
      then have "is_reset r"
        by (simp add: is_reset_def d EpDeleteAll)
      moreover from None delete_all_todos_effect[of "rq_query r" s]
      have "todos (fst (delete_all_todos s (rq_query r))) = []
          \<and> nextId (fst (delete_all_todos s (rq_query r))) = 1
          \<and> created_id (snd (delete_all_todos s (rq_query r))) = None"
        by simp
      ultimately show ?thesis unfolding h by simp
    next
      case (Some c)
      with delete_all_todos_effect[of "rq_query r" s]
      have "keeps_ids s (fst (delete_all_todos s (rq_query r)))
          \<and> created_id (snd (delete_all_todos s (rq_query r))) = None"
        by simp
      then show ?thesis unfolding h by simp
    qed
  next
    case EpStats
    then show ?thesis by (simp add: handle_def d todo_stats_keeps)
  qed
qed

lemma handle_ids_inv:
  assumes "ids_inv s"
  shows "ids_inv (fst (handle rt s r))"
proof -
  consider
    (keep) "keeps_ids s (fst (handle rt s r))"
  | (reset) "todos (fst (handle rt s r)) = []"
  | (create) t where "fst (handle rt s r) = s\<lparr>todos := todos s @ [t], nextId := nextId s + 1\<rparr>"
      "todo_id t = nextId s"
    using handle_effect[of s rt r] by blast
  then show ?thesis
  proof cases
    case keep
    have "todo_id t < nextId s" if "t \<in> set (todos (fst (handle rt s r)))" for t
    proof -
      from that keep have "todo_id t \<in> set (map todo_id (todos s))"
        by (auto simp: keeps_ids_def)
      with assms show ?thesis by (auto simp: ids_inv_def)
    qed
    with keep assms show ?thesis by (simp add: ids_inv_def keeps_ids_def)
  next
    case reset
    then show ?thesis by (simp add: ids_inv_def)
  next
    case create
    with assms show ?thesis by (fastforce simp: ids_inv_def)
  qed
qed

lemma run_ids_inv: "ids_inv s \<Longrightarrow> ids_inv (run rt s rs)"
  by (induction rs arbitrary: s) (simp_all add: handle_ids_inv)

lemma initial_ids_inv: "ids_inv (initial_store clk)"
  by (simp add: ids_inv_def initial_store_def initial_todos_def)

lemma handle_nextId_mono:
  "\<not> is_reset r \<Longrightarrow> nextId s \<le> nextId (fst (handle rt s r))"
  using handle_effect[of s rt r] by (auto simp: keeps_ids_def)

lemma handle_created:
  "created_id (snd (handle rt s r)) = Some i \<Longrightarrow>
   i = nextId s \<and> nextId (fst (handle rt s r)) = nextId s + 1"
  using handle_effect[of s rt r] by auto

lemma run_nextId_mono:
  "list_all (\<lambda>r. \<not> is_reset r) rs \<Longrightarrow> nextId s \<le> nextId (run rt s rs)"
proof (induction rs arbitrary: s)
  case Nil
  then show ?case by simp
next
  case (Cons r rs)
  then have "nextId s \<le> nextId (fst (handle rt s r))"
    and "nextId (fst (handle rt s r)) \<le> nextId (run rt (fst (handle rt s r)) rs)"
    by (simp_all add: handle_nextId_mono)
  then show ?case by simp
qed

lemma created_ids_increasing:
  "list_all (\<lambda>r. \<not> is_reset r) rs \<Longrightarrow>
   sorted_wrt (<) (created_ids rt s rs) \<and> (\<forall>i\<in>set (created_ids rt s rs). nextId s \<le> i)"
proof (induction rs arbitrary: s)
  case Nil
  then show ?case by simp
next
  case (Cons r rs)
  let ?s' = "fst (handle rt s r)"
  from Cons.prems have nr: "\<not> is_reset r" and rest: "list_all (\<lambda>r. \<not> is_reset r) rs"
    by simp_all
  note IH = Cons.IH[OF rest, of ?s']
  have mono: "nextId s \<le> nextId ?s'" by (rule handle_nextId_mono[OF nr])
  show ?case
  proof (cases "created_id (snd (handle rt s r))")
    case None
    with IH mono show ?thesis by auto
  next
    case (Some i)
    from handle_created[OF Some] have "i = nextId s" "nextId ?s' = nextId s + 1" by simp_all
    with IH Some show ?thesis by auto
  qed
qed

text \<open>
  C9: in the store reached from process start by any sequence of requests, all record
  ids are distinct (and below the counter). Over any further requests among which no
  unfiltered DeleteAll occurs, the ids that the successful Creates allocate are
  strictly increasing and each is greater than every id in the store before them, and
  the counter never decreases: an id is not allocated again after its record is
  deleted.
\<close>

theorem ids_unique_and_increasing:
  "distinct (map todo_id (todos (run rt (initial_store clk) rs)))
   \<and> (\<forall>t\<in>set (todos (run rt (initial_store clk) rs)).
        todo_id t < nextId (run rt (initial_store clk) rs))
   \<and> (list_all (\<lambda>r. \<not> is_reset r) rs' \<longrightarrow>
        sorted_wrt (<) (created_ids rt (run rt (initial_store clk) rs) rs')
        \<and> (\<forall>i\<in>set (created_ids rt (run rt (initial_store clk) rs) rs').
              \<forall>t\<in>set (todos (run rt (initial_store clk) rs)). todo_id t < i)
        \<and> nextId (run rt (initial_store clk) rs)
             \<le> nextId (run rt (run rt (initial_store clk) rs) rs'))"
proof -
  let ?s = "run rt (initial_store clk) rs"
  have inv: "ids_inv ?s"
    by (rule run_ids_inv[OF initial_ids_inv])
  have 1: "distinct (map todo_id (todos ?s))"
    and 2: "\<forall>t\<in>set (todos ?s). todo_id t < nextId ?s"
    using inv by (simp_all add: ids_inv_def)
  have 3: "sorted_wrt (<) (created_ids rt ?s rs')
        \<and> (\<forall>i\<in>set (created_ids rt ?s rs'). \<forall>t\<in>set (todos ?s). todo_id t < i)
        \<and> nextId ?s \<le> nextId (run rt ?s rs')"
    if nr: "list_all (\<lambda>r. \<not> is_reset r) rs'"
  proof -
    note c = created_ids_increasing[OF nr, of rt ?s]
    have "todo_id t < i" if "i \<in> set (created_ids rt ?s rs')" "t \<in> set (todos ?s)" for i t
    proof -
      from c that(1) have "nextId ?s \<le> i" by blast
      moreover from 2 that(2) have "todo_id t < nextId ?s" by blast
      ultimately show ?thesis by simp
    qed
    with c run_nextId_mono[OF nr, of ?s rt] show ?thesis by blast
  qed
  show ?thesis using 1 2 3 by blast
qed

theorem ids_unique_and_increasing_witness:
  "created_ids ascii_runtime (run ascii_runtime (initial_store (clock_at 0)) [])
      [create_request ''a'', delete_request ''4'', create_request ''b''] = [4, 5]
   \<and> sorted_wrt (<) (created_ids ascii_runtime (run ascii_runtime (initial_store (clock_at 0)) [])
      [create_request ''a'', delete_request ''4'', create_request ''b''])
   \<and> map todo_id (todos (run ascii_runtime (initial_store (clock_at 0))
      [create_request ''a'', delete_request ''4'', create_request ''b''])) = [1, 2, 3, 5]
   \<and> distinct (map todo_id (todos (run ascii_runtime (initial_store (clock_at 0))
      [create_request ''a'', delete_request ''4'', create_request ''b''])))"
proof -
  let ?rs = "[create_request ''a'', delete_request ''4'', create_request ''b'']"
  have nr: "list_all (\<lambda>r. \<not> is_reset r) ?rs"
    by code_simp
  have c: "created_ids ascii_runtime (run ascii_runtime (initial_store (clock_at 0)) []) ?rs = [4, 5]"
    by code_simp
  have m: "map todo_id (todos (run ascii_runtime (initial_store (clock_at 0)) ?rs)) = [1, 2, 3, 5]"
    by code_simp
  note s = ids_unique_and_increasing [of ascii_runtime "clock_at 0" "[]" ?rs,
      THEN conjunct2, THEN conjunct2, THEN mp, OF nr, THEN conjunct1]
  note d = ids_unique_and_increasing [of ascii_runtime "clock_at 0" ?rs "[]", THEN conjunct1]
  show ?thesis by (intro conjI c s m d)
qed

end
